theory Spec2Isabelle
  imports Main "HOL-Library.Word" "HOL-Library.Log_Nat" "HOL-Library.Monad_Syntax"
begin

unbundle bit_operations_syntax

section \<open>The pixel editor of \<open>C_Pixel_Art_Editor.c\<close>\<close>

text \<open>
  The program is a single C file over SDL2. Its process-wide variables (\<open>CELLS_X\<close>,
  \<open>CELLS_Y\<close>, \<open>CELL_SIZE\<close>, \<open>canvas\<close>, \<open>palette\<close>, \<open>current_color\<close>, \<open>show_grid\<close>) and
  the three locals of \<open>main\<close>'s event loop form one record, passed through every function.

  Conventions of the embedding:
  \<^item> C's \<open>int\<close> has 32 bits and signed overflow is undefined. Wherever the program
    computes in \<open>int\<close> a buffer size, an index, a pixel coordinate or the bound of a
    comparison, the embedding passes the exact result of each product, sum, difference and
    quotient through \<open>c_int\<close>, which has no value outside 32 bits. Not passed through it
    are the loop counters and the colour distance (bounded by the loop's limit and by
    \<open>3 * 255^2\<close>), \<open>img_w - 1\<close> and \<open>img_h - 1\<close> (SDL has no surface of negative size), the
    shifts that pack a pixel (taken on the 32-bit pattern), the step of \<open>CELL_SIZE\<close> by
    the keys \<open>[\<close> and \<open>]\<close> (\<open>CELL_SIZE\<close> is stored as the exact integer and checked in
    every product it enters), and the window sizes handed to \<open>SDL_CreateWindow\<close> and
    \<open>SDL_SetWindowSize\<close>, which do not enter the state.
  \<^item> \<open>size_t\<close> has 64 bits: \<open>sizeof(uint32_t) * w * h\<close> is the exact product for every
    \<open>w\<close> and \<open>h\<close> that fit an \<open>int\<close>.
  \<^item> \<open>uint8_t\<close> and \<open>uint32_t\<close> are \<open>8 word\<close> and \<open>32 word\<close>.
  \<^item> A function returns \<open>None\<close> where the C program has no defined result: an array
    access out of range, a \<open>NULL\<close> dereference, a division by zero, an \<open>int\<close> overflow, or
    \<open>exit(1)\<close> after a failed \<open>calloc\<close>. A C return code (\<open>0\<close>, \<open>-1\<close>) is an ordinary
    value.
  \<^item> Calls into SDL and libc whose result the program cannot determine (allocation,
    the console, the file system) are fields of an environment record.
  \<^item> \<open>double\<close> arithmetic is IEEE 754 binary64 with round-to-nearest-even: the exact
    rational result of each operation, rounded to 53 significant bits.
  \<^item> The two drawing functions only read the state; of them the embedding keeps the
    read of a cell. What \<open>printf\<close> prints and what SDL shows are left out.
\<close>

subsection \<open>C arithmetic and arrays\<close>

type_synonym uint8 = "8 word"
type_synonym uint32 = "32 word"

definition INT32_MAX :: int where
  "INT32_MAX = 2147483647"

definition INT32_MIN :: int where
  "INT32_MIN = - 2147483648"

text \<open>
  The value of an \<open>int\<close> operation whose exact result is \<open>v\<close>: none when \<open>v\<close> leaves
  32 bits.
\<close>

definition c_int :: "int \<Rightarrow> int option" where
  "c_int v = (if INT32_MIN \<le> v \<and> v \<le> INT32_MAX then Some v else None)"

text \<open>
  Integer division truncates towards zero; division by zero has no defined result, nor
  has \<open>INT32_MIN / -1\<close>.
\<close>

definition c_div :: "int \<Rightarrow> int \<Rightarrow> int option" where
  "c_div x y = (if y = 0 then None else c_int (sgn x * sgn y * (\<bar>x\<bar> div \<bar>y\<bar>)))"

definition load_at :: "'a list \<Rightarrow> int \<Rightarrow> 'a option" where
  "load_at xs i = (if 0 \<le> i \<and> i < int (length xs) then Some (xs ! nat i) else None)"

definition store_at :: "'a list \<Rightarrow> int \<Rightarrow> 'a \<Rightarrow> 'a list option" where
  "store_at xs i v = (if 0 \<le> i \<and> i < int (length xs) then Some (xs[nat i := v]) else None)"

definition memset :: "uint8 list \<Rightarrow> uint8 \<Rightarrow> int \<Rightarrow> uint8 list option" where
  "memset buf v n =
     (if 0 \<le> n \<and> n \<le> int (length buf)
      then Some (replicate (nat n) v @ drop (nat n) buf) else None)"

text \<open>\<open>for (int i = i0; i < n; i++) body\<close>, the body acting on the loop's state.\<close>

function for_loop :: "int \<Rightarrow> int \<Rightarrow> (int \<Rightarrow> 's \<Rightarrow> 's option) \<Rightarrow> 's \<Rightarrow> 's option" where
  "for_loop i n body s =
     (if i < n
      then (case body i s of None \<Rightarrow> None | Some s' \<Rightarrow> for_loop (i + 1) n body s')
      else Some s)"
  by pat_completeness auto
termination
  by (relation "measure (\<lambda>(i, n, body, s). nat (n - i))") auto

declare for_loop.simps [simp del]

subsection \<open>Double precision\<close>

text \<open>Round to the nearest integer, ties to the even one.\<close>

definition rne :: "rat \<Rightarrow> int" where
  "rne y = (let f = \<lfloor>y\<rfloor>; d = y - of_int f
            in if d < 1/2 then f else if 1/2 < d then f + 1
               else if even f then f else f + 1)"

text \<open>The binary exponent \<open>e\<close> of a positive rational: \<open>2^e \<le> x < 2^(e+1)\<close>.\<close>

definition binade :: "rat \<Rightarrow> int" where
  "binade x = (let (p, q) = quotient_of x; d = bitlen p - bitlen q
               in if 2 powi d \<le> x then d else d - 1)"

text \<open>
  The binary64 value nearest to \<open>x\<close>. Exponent limits (overflow, subnormal numbers) are
  left out: the program's values lie between \<open>2^-33\<close> and \<open>2^31\<close>, or are zero.
\<close>

definition round_double :: "rat \<Rightarrow> rat" where
  "round_double x = (if x = 0 then 0 else
     let u = 2 powi (binade \<bar>x\<bar> - 52)
     in sgn x * of_int (rne (\<bar>x\<bar> / u)) * u)"

definition double_of_int :: "int \<Rightarrow> rat" where
  "double_of_int n = of_int n"

definition fadd :: "rat \<Rightarrow> rat \<Rightarrow> rat" where
  "fadd x y = round_double (x + y)"

definition fdiv :: "rat \<Rightarrow> rat \<Rightarrow> rat" where
  "fdiv x y = round_double (x / y)"

definition fmul :: "rat \<Rightarrow> rat \<Rightarrow> rat" where
  "fmul x y = round_double (x * y)"

text \<open>The cast \<open>(int)\<close> of a double drops the fraction.\<close>

definition int_of_double :: "rat \<Rightarrow> int" where
  "int_of_double v = (if 0 \<le> v then \<lfloor>v\<rfloor> else \<lceil>v\<rceil>)"

subsection \<open>SDL types and constants\<close>

text \<open>\<open>SDL_Color\<close>, with fields \<open>r\<close>, \<open>g\<close>, \<open>b\<close>, \<open>a\<close>.\<close>

record SDL_Color =
  c_r :: uint8
  c_g :: uint8
  c_b :: uint8
  c_a :: uint8

datatype byteorder = SDL_LIL_ENDIAN | SDL_BIG_ENDIAN

datatype pixel_buffer = Words "uint32 list" | Bytes "uint8 list"

text \<open>\<open>SDL_Surface\<close>: the fields \<open>w\<close>, \<open>h\<close>, \<open>pitch\<close>, \<open>pixels\<close> and the format's channel masks.\<close>

record SDL_Surface =
  surf_w :: int
  surf_h :: int
  surf_pitch :: int
  surf_pixels :: pixel_buffer
  Rmask :: uint32
  Gmask :: uint32
  Bmask :: uint32
  Amask :: uint32

definition SDL_BUTTON_LEFT :: int where "SDL_BUTTON_LEFT = 1"
definition SDL_BUTTON_RIGHT :: int where "SDL_BUTTON_RIGHT = 3"

text \<open>SDL key codes of printable keys are their ASCII codes.\<close>

definition SDLK_ESCAPE :: int where "SDLK_ESCAPE = 27"
definition SDLK_0 :: int where "SDLK_0 = 48"
definition SDLK_9 :: int where "SDLK_9 = 57"
definition SDLK_LEFTBRACKET :: int where "SDLK_LEFTBRACKET = 91"
definition SDLK_RIGHTBRACKET :: int where "SDLK_RIGHTBRACKET = 93"
definition SDLK_c :: int where "SDLK_c = 99"
definition SDLK_g :: int where "SDLK_g = 103"
definition SDLK_l :: int where "SDLK_l = 108"
definition SDLK_s :: int where "SDLK_s = 115"

datatype SDL_Event =
    SDL_QUIT
  | SDL_MOUSEBUTTONDOWN int int int
  | SDL_MOUSEBUTTONUP
  | SDL_MOUSEMOTION int int
  | SDL_KEYDOWN int
  | SDL_OTHEREVENT

text \<open>
  What the program asks of its surroundings while it handles one event: whether
  \<open>calloc\<close> and \<open>malloc\<close> succeed, the line \<open>fgets\<close> reads from the console (\<open>None\<close> at end
  of input), the byte order SDL was compiled for, and the results of the SDL calls.
\<close>

record sdl_env =
  calloc_ok :: bool
  malloc_ok :: bool
  fgets_stdin :: "string option"
  SDL_BYTEORDER :: byteorder
  SDL_CreateRGBSurfaceFrom_ok :: bool
  SDL_SaveBMP :: "SDL_Surface \<Rightarrow> string \<Rightarrow> int"
  SDL_LoadBMP :: "string \<Rightarrow> SDL_Surface option"
  SDL_ConvertSurfaceFormat :: "SDL_Surface \<Rightarrow> SDL_Surface option"

subsection \<open>Program state\<close>

definition PALETTE_COUNT :: int where
  "PALETTE_COUNT = 12"

record editor =
  CELLS_X :: int
  CELLS_Y :: int
  CELL_SIZE :: int
  canvas :: "uint8 list option"
  palette :: "SDL_Color list"
  current_color :: int
  show_grid :: int
  running :: int
  mouse_down :: int
  mouse_button :: int

subsection \<open>Helpers\<close>

text \<open>
  \<open>calloc\<close> gets the \<open>int\<close> product \<open>CELLS_X * CELLS_Y\<close>, converted to \<open>size_t\<close>: a
  negative product is a size no allocation can serve, and the program exits. \<open>memset\<close> in
  \<open>clear_canvas\<close> gets the same product.
\<close>

definition ensure_canvas_allocated :: "sdl_env \<Rightarrow> editor \<Rightarrow> editor option" where
  "ensure_canvas_allocated env st =
     (case canvas st of
        Some cv \<Rightarrow> Some st
      | None \<Rightarrow> do {
          n \<leftarrow> c_int (CELLS_X st * CELLS_Y st);
          if 0 \<le> n \<and> calloc_ok env
          then Some (st\<lparr>canvas := Some (replicate (nat n) 0)\<rparr>)
          else None
        })"

definition init_default_palette :: "SDL_Color list" where
  "init_default_palette =
     [\<lparr>c_r = 255, c_g = 255, c_b = 255, c_a = 255\<rparr>,
      \<lparr>c_r = 0, c_g = 0, c_b = 0, c_a = 255\<rparr>,
      \<lparr>c_r = 255, c_g = 0, c_b = 0, c_a = 255\<rparr>,
      \<lparr>c_r = 0, c_g = 255, c_b = 0, c_a = 255\<rparr>,
      \<lparr>c_r = 0, c_g = 0, c_b = 255, c_a = 255\<rparr>,
      \<lparr>c_r = 255, c_g = 255, c_b = 0, c_a = 255\<rparr>,
      \<lparr>c_r = 255, c_g = 165, c_b = 0, c_a = 255\<rparr>,
      \<lparr>c_r = 128, c_g = 0, c_b = 128, c_a = 255\<rparr>,
      \<lparr>c_r = 0, c_g = 255, c_b = 255, c_a = 255\<rparr>,
      \<lparr>c_r = 255, c_g = 192, c_b = 203, c_a = 255\<rparr>,
      \<lparr>c_r = 128, c_g = 128, c_b = 128, c_a = 255\<rparr>,
      \<lparr>c_r = 139, c_g = 69, c_b = 19, c_a = 255\<rparr>]"

definition clear_canvas :: "sdl_env \<Rightarrow> editor \<Rightarrow> editor option" where
  "clear_canvas env st = do {
     st1 \<leftarrow> ensure_canvas_allocated env st;
     cv \<leftarrow> canvas st1;
     n \<leftarrow> c_int (CELLS_X st1 * CELLS_Y st1);
     cv' \<leftarrow> memset cv 0 n;
     Some (st1\<lparr>canvas := Some cv'\<rparr>)
   }"

text \<open>
  The read \<open>canvas[y*CELLS_X + x]\<close> of \<open>draw_canvas_to_renderer\<close>: the stored index of
  cell \<open>(x, y)\<close>.
\<close>

definition get_cell :: "editor \<Rightarrow> int \<Rightarrow> int \<Rightarrow> int option" where
  "get_cell st x y = do {
     cv \<leftarrow> canvas st;
     row \<leftarrow> c_int (y * CELLS_X st);
     idx \<leftarrow> c_int (row + x);
     cidx \<leftarrow> load_at cv idx;
     Some (uint cidx)
   }"

subsection \<open>Export\<close>

text \<open>
  The pixel word of \<open>save_canvas_as_bmp\<close>:
  \<open>(col.r<<24) | (col.g<<16) | (col.b<<8) | col.a\<close>, as a \<open>uint32_t\<close>: red in the highest
  byte of the word and alpha in the lowest, on every platform. (For \<open>col.r >= 128\<close> the
  shift of the promoted \<open>int\<close> sets its sign bit; the word is the 32-bit pattern.)
\<close>

definition pack_pixel :: "SDL_Color \<Rightarrow> uint32" where
  "pack_pixel col =
     push_bit 24 (ucast (c_r col)) OR push_bit 16 (ucast (c_g col))
       OR push_bit 8 (ucast (c_b col)) OR ucast (c_a col)"

text \<open>The four masks handed to \<open>SDL_CreateRGBSurfaceFrom\<close>, chosen by \<open>SDL_BYTEORDER\<close>.\<close>

definition surface_masks :: "byteorder \<Rightarrow> uint32 \<times> uint32 \<times> uint32 \<times> uint32" where
  "surface_masks bo =
     (case bo of
        SDL_BIG_ENDIAN \<Rightarrow> (0xff000000, 0x00ff0000, 0x0000ff00, 0x000000ff)
      | SDL_LIL_ENDIAN \<Rightarrow> (0x000000ff, 0x0000ff00, 0x00ff0000, 0xff000000))"

definition SDL_CreateRGBSurfaceFrom ::
  "uint32 list \<Rightarrow> int \<Rightarrow> int \<Rightarrow> int \<Rightarrow> uint32 \<times> uint32 \<times> uint32 \<times> uint32 \<Rightarrow> SDL_Surface" where
  "SDL_CreateRGBSurfaceFrom pixels width height pitch masks =
     (case masks of (rm, gm, bm, am) \<Rightarrow>
        \<lparr>surf_w = width, surf_h = height, surf_pitch = pitch, surf_pixels = Words pixels,
         Rmask = rm, Gmask = gm, Bmask = bm, Amask = am\<rparr>)"

text \<open>The two loops of \<open>save_canvas_as_bmp\<close> that fill the \<open>w*h\<close> pixel buffer.\<close>

definition save_pixel :: "editor \<Rightarrow> uint8 list \<Rightarrow> int \<Rightarrow> int \<Rightarrow> int \<Rightarrow> uint32 list \<Rightarrow> uint32 list option" where
  "save_pixel st cv width y x pixels = do {
     cx \<leftarrow> c_div x (CELL_SIZE st);
     cy \<leftarrow> c_div y (CELL_SIZE st);
     row \<leftarrow> c_int (cy * CELLS_X st);
     idx \<leftarrow> c_int (row + cx);
     cidx \<leftarrow> load_at cv idx;
     col \<leftarrow> load_at (palette st) (uint cidx);
     line \<leftarrow> c_int (y * width);
     p \<leftarrow> c_int (line + x);
     store_at pixels p (pack_pixel col)
   }"

definition save_pixels :: "editor \<Rightarrow> uint32 list option" where
  "save_pixels st = do {
     cv \<leftarrow> canvas st;
     width \<leftarrow> c_int (CELLS_X st * CELL_SIZE st);
     height \<leftarrow> c_int (CELLS_Y st * CELL_SIZE st);
     for_loop 0 height (\<lambda>y. for_loop 0 width (save_pixel st cv width y))
       (replicate (nat (width * height)) 0)
   }"

text \<open>The surface that \<open>save_canvas_as_bmp\<close> hands to \<open>SDL_SaveBMP\<close>.\<close>

definition save_surface :: "byteorder \<Rightarrow> editor \<Rightarrow> SDL_Surface option" where
  "save_surface bo st = do {
     pixels \<leftarrow> save_pixels st;
     width \<leftarrow> c_int (CELLS_X st * CELL_SIZE st);
     height \<leftarrow> c_int (CELLS_Y st * CELL_SIZE st);
     pitch \<leftarrow> c_int (width * 4);
     Some (SDL_CreateRGBSurfaceFrom pixels width height pitch (surface_masks bo))
   }"

text \<open>
  \<open>save_canvas_as_bmp\<close>: the return code and the state. The width and the height are
  computed before \<open>malloc\<close> is called.
\<close>

definition save_canvas_as_bmp :: "sdl_env \<Rightarrow> string \<Rightarrow> editor \<Rightarrow> (int \<times> editor) option" where
  "save_canvas_as_bmp env filename st = do {
     st1 \<leftarrow> ensure_canvas_allocated env st;
     width \<leftarrow> c_int (CELLS_X st1 * CELL_SIZE st1);
     height \<leftarrow> c_int (CELLS_Y st1 * CELL_SIZE st1);
     if \<not> malloc_ok env then Some (- 1, st1)
     else do {
       surf \<leftarrow> save_surface (SDL_BYTEORDER env) st1;
       if \<not> SDL_CreateRGBSurfaceFrom_ok env then Some (- 1, st1)
       else Some (SDL_SaveBMP env surf filename, st1)
     }
   }"

subsection \<open>Nearest palette colour\<close>

text \<open>
  The squared distance in red, green and blue. Each difference lies between \<open>-255\<close> and
  \<open>255\<close>, so the sum is at most \<open>3 * 255^2\<close>.
\<close>

definition color_distance :: "SDL_Color \<Rightarrow> SDL_Color \<Rightarrow> int" where
  "color_distance c p =
     (let dr = uint (c_r c) - uint (c_r p);
          dg = uint (c_g c) - uint (c_g p);
          db = uint (c_b c) - uint (c_b p)
      in dr * dr + dg * dg + db * db)"

text \<open>
  The loop of \<open>nearest_palette_index\<close> from index \<open>i\<close>, with the locals \<open>best\<close>, \<open>bestd\<close>.
  The array \<open>palette\<close> has \<open>PALETTE_COUNT\<close> entries, so \<open>palette[i]\<close> is in range here.
\<close>

function nearest_loop :: "SDL_Color list \<Rightarrow> SDL_Color \<Rightarrow> int \<Rightarrow> int \<Rightarrow> int \<Rightarrow> int" where
  "nearest_loop pal c i best bestd =
     (if i < PALETTE_COUNT
      then (let d = color_distance c (pal ! nat i)
            in if d < bestd then nearest_loop pal c (i + 1) i d
               else nearest_loop pal c (i + 1) best bestd)
      else best)"
  by pat_completeness auto
termination
  by (relation "measure (\<lambda>(pal, c, i, best, bestd). nat (PALETTE_COUNT - i))") auto

declare nearest_loop.simps [simp del]

definition nearest_palette_index :: "SDL_Color list \<Rightarrow> SDL_Color \<Rightarrow> int" where
  "nearest_palette_index pal c = nearest_loop pal c 0 0 INT32_MAX"

subsection \<open>Import\<close>

text \<open>
  \<open>(int)(((c + 0.5) / (double)n) * img)\<close>, the sample coordinate of cell \<open>c\<close> of \<open>n\<close>: the
  integer part of the double. (The cast has a defined result when that integer fits an
  \<open>int\<close>; \<open>load_cell\<close> checks it.)
\<close>

definition sample_coord :: "int \<Rightarrow> int \<Rightarrow> int \<Rightarrow> int" where
  "sample_coord c n img =
     int_of_double
       (fmul (fdiv (fadd (double_of_int c) (1/2)) (double_of_int n)) (double_of_int img))"

text \<open>
  \<open>if (s < 0) s = 0; if (s >= img) s = img-1;\<close> for the width or height \<open>img\<close> of a
  surface.
\<close>

definition clamp_coord :: "int \<Rightarrow> int \<Rightarrow> int" where
  "clamp_coord s img =
     (let s1 = (if s < 0 then 0 else s) in if s1 \<ge> img then img - 1 else s1)"

text \<open>The body of the two loops of \<open>load_bmp_to_canvas\<close>, for cell \<open>(cx, cy)\<close>.\<close>

definition load_cell :: "editor \<Rightarrow> SDL_Surface \<Rightarrow> uint8 list \<Rightarrow> int \<Rightarrow> int \<Rightarrow> uint8 list \<Rightarrow> uint8 list option" where
  "load_cell st fmt pixels cy cx cv = do {
     let img_w = surf_w fmt;
     let img_h = surf_h fmt;
     let pitch = surf_pitch fmt;
     sx0 \<leftarrow> c_int (sample_coord cx (CELLS_X st) img_w);
     sy0 \<leftarrow> c_int (sample_coord cy (CELLS_Y st) img_h);
     let sx = clamp_coord sx0 img_w;
     let sy = clamp_coord sy0 img_h;
     line \<leftarrow> c_int (sy * pitch);
     off \<leftarrow> c_int (sx * 3);
     let p = line + off;
     p0 \<leftarrow> load_at pixels p;
     p1 \<leftarrow> load_at pixels (p + 1);
     p2 \<leftarrow> load_at pixels (p + 2);
     let c = \<lparr>c_r = p0, c_g = p1, c_b = p2, c_a = 255\<rparr>;
     let pi = nearest_palette_index (palette st) c;
     row \<leftarrow> c_int (cy * CELLS_X st);
     idx \<leftarrow> c_int (row + cx);
     store_at cv idx (word_of_int pi)
   }"

text \<open>
  \<open>load_bmp_to_canvas\<close>: the return code and the state. The function reads \<open>fmt->pixels\<close>
  as bytes; the canvas is written cell by cell, after both SDL calls have succeeded.
\<close>

definition load_bmp_to_canvas :: "sdl_env \<Rightarrow> string \<Rightarrow> editor \<Rightarrow> (int \<times> editor) option" where
  "load_bmp_to_canvas env filename st =
     (case SDL_LoadBMP env filename of
        None \<Rightarrow> Some (- 1, st)
      | Some surf \<Rightarrow>
          (case SDL_ConvertSurfaceFormat env surf of
             None \<Rightarrow> Some (- 1, st)
           | Some fmt \<Rightarrow> do {
               pixels \<leftarrow> (case surf_pixels fmt of Bytes bs \<Rightarrow> Some bs | Words ws \<Rightarrow> None);
               cv \<leftarrow> canvas st;
               cv' \<leftarrow> for_loop 0 (CELLS_Y st)
                        (\<lambda>cy. for_loop 0 (CELLS_X st) (load_cell st fmt pixels cy)) cv;
               Some (0, st\<lparr>canvas := Some cv'\<rparr>)
             }))"

subsection \<open>What SDL does with a surface\<close>

text \<open>
  SDL reads a channel of a 32-bit pixel through the channel's mask: the masked bits,
  shifted down by the number of zero bits below the mask (the loop
  \<open>for (m = Rmask; !(m & 0x01); m >>= 1) ++Rshift\<close> of SDL's pixel formats).
\<close>

fun mask_shift_loop :: "nat \<Rightarrow> uint32 \<Rightarrow> nat" where
  "mask_shift_loop 0 m = 0"
| "mask_shift_loop (Suc fuel) m =
     (if bit m 0 then 0 else Suc (mask_shift_loop fuel (drop_bit 1 m)))"

definition mask_shift :: "uint32 \<Rightarrow> nat" where
  "mask_shift m = (if m = 0 then 0 else mask_shift_loop 32 m)"

definition mask_channel :: "uint32 \<Rightarrow> uint32 \<Rightarrow> uint8" where
  "mask_channel m pixel = ucast (drop_bit (mask_shift m) (pixel AND m))"

definition SDL_GetRGBA :: "uint32 \<Rightarrow> SDL_Surface \<Rightarrow> SDL_Color" where
  "SDL_GetRGBA pixel surf =
     \<lparr>c_r = mask_channel (Rmask surf) pixel, c_g = mask_channel (Gmask surf) pixel,
      c_b = mask_channel (Bmask surf) pixel, c_a = mask_channel (Amask surf) pixel\<rparr>"

text \<open>The colour SDL sees at pixel \<open>(x, y)\<close> of a 32-bit surface.\<close>

definition surface_color :: "SDL_Surface \<Rightarrow> int \<Rightarrow> int \<Rightarrow> SDL_Color option" where
  "surface_color surf x y =
     (case surf_pixels surf of
        Words ws \<Rightarrow>
          map_option (\<lambda>p. SDL_GetRGBA p surf) (load_at ws (y * (surf_pitch surf div 4) + x))
      | Bytes bs \<Rightarrow> None)"

text \<open>
  \<open>SDL_SaveBMP\<close> writes the channels of every pixel of a surface with an alpha mask into a
  32-bit bitmap, and \<open>SDL_LoadBMP\<close> reads them back. \<open>SDL_ConvertSurfaceFormat\<close> to
  \<open>SDL_PIXELFORMAT_RGB24\<close> lays the red, green and blue channel of every pixel out as three
  bytes in this order, each row padded to a multiple of four bytes.
\<close>

definition rgb24_pitch :: "int \<Rightarrow> int" where
  "rgb24_pitch width = ((width * 3 + 3) div 4) * 4"

definition rgb24_byte :: "SDL_Surface \<Rightarrow> int \<Rightarrow> uint8" where
  "rgb24_byte surf k =
     (let pitch = rgb24_pitch (surf_w surf); y = k div pitch; off = k mod pitch
      in if off < 3 * surf_w surf
         then (case surface_color surf (off div 3) y of
                 None \<Rightarrow> 0
               | Some c \<Rightarrow> if off mod 3 = 0 then c_r c else if off mod 3 = 1 then c_g c else c_b c)
         else 0)"

definition rgb24_bytes :: "SDL_Surface \<Rightarrow> uint8 list" where
  "rgb24_bytes surf =
     map (\<lambda>k. rgb24_byte surf (int k)) [0 ..< nat (surf_h surf * rgb24_pitch (surf_w surf))]"

definition convert_to_RGB24 :: "byteorder \<Rightarrow> SDL_Surface \<Rightarrow> SDL_Surface" where
  "convert_to_RGB24 bo surf =
     \<lparr>surf_w = surf_w surf, surf_h = surf_h surf, surf_pitch = rgb24_pitch (surf_w surf),
      surf_pixels = Bytes (rgb24_bytes surf),
      Rmask = (case bo of SDL_LIL_ENDIAN \<Rightarrow> 0x0000ff | SDL_BIG_ENDIAN \<Rightarrow> 0xff0000),
      Gmask = 0x00ff00,
      Bmask = (case bo of SDL_LIL_ENDIAN \<Rightarrow> 0xff0000 | SDL_BIG_ENDIAN \<Rightarrow> 0x0000ff),
      Amask = 0\<rparr>"

text \<open>
  What a path holds for \<open>SDL_LoadBMP\<close>: nothing that can be opened, data that is not a
  bitmap, or a bitmap, given as the surface that decoding it yields, whose \<open>w\<close> and \<open>h\<close>
  are the width and the height of the file's header. \<open>SDL_LoadBMP\<close> returns \<open>NULL\<close> in the
  first two cases and for a header whose width or height is zero (SDL's error
  \<open>BMP file with bad dimensions\<close>).
\<close>

datatype bmp_file = No_file | Not_a_bitmap | Bitmap SDL_Surface

definition SDL_LoadBMP_from :: "(string \<Rightarrow> bmp_file) \<Rightarrow> string \<Rightarrow> SDL_Surface option" where
  "SDL_LoadBMP_from files name =
     (case files name of
        No_file \<Rightarrow> None
      | Not_a_bitmap \<Rightarrow> None
      | Bitmap surf \<Rightarrow> if surf_w surf \<le> 0 \<or> surf_h surf \<le> 0 then None else Some surf)"

text \<open>The surroundings once \<open>SDL_SaveBMP\<close> has written \<open>surf\<close> to the file \<open>name\<close>.\<close>

definition saved_env :: "sdl_env \<Rightarrow> string \<Rightarrow> SDL_Surface \<Rightarrow> sdl_env" where
  "saved_env env name surf =
     env\<lparr>SDL_LoadBMP := (SDL_LoadBMP env)(name := Some surf),
         SDL_ConvertSurfaceFormat := (\<lambda>s. Some (convert_to_RGB24 (SDL_BYTEORDER env) s))\<rparr>"

text \<open>Key \<open>s\<close> and then key \<open>l\<close> on the same file name.\<close>

definition export_import :: "sdl_env \<Rightarrow> string \<Rightarrow> editor \<Rightarrow> (int \<times> editor) option" where
  "export_import env name st = do {
     surf \<leftarrow> save_surface (SDL_BYTEORDER env) st;
     load_bmp_to_canvas (saved_env env name surf) name st
   }"

subsection \<open>The event loop of \<open>main\<close>\<close>

text \<open>
  The block both mouse handlers share: the bounds test on the cell and the write of
  \<open>current_color\<close> (left button) or \<open>0\<close> (right button) into \<open>canvas[cy*CELLS_X + cx]\<close>.
\<close>

definition paint_cell :: "editor \<Rightarrow> int \<Rightarrow> int \<Rightarrow> editor option" where
  "paint_cell st cx cy =
     (if cx \<ge> 0 \<and> cx < CELLS_X st \<and> cy \<ge> 0 \<and> cy < CELLS_Y st
      then
        (if mouse_button st = SDL_BUTTON_LEFT then do {
           cv \<leftarrow> canvas st;
           row \<leftarrow> c_int (cy * CELLS_X st);
           idx \<leftarrow> c_int (row + cx);
           cv' \<leftarrow> store_at cv idx (word_of_int (current_color st));
           Some (st\<lparr>canvas := Some cv'\<rparr>)
         }
         else if mouse_button st = SDL_BUTTON_RIGHT then do {
           cv \<leftarrow> canvas st;
           row \<leftarrow> c_int (cy * CELLS_X st);
           idx \<leftarrow> c_int (row + cx);
           cv' \<leftarrow> store_at cv idx 0;
           Some (st\<lparr>canvas := Some cv'\<rparr>)
         }
         else Some st)
      else Some st)"

text \<open>The pointer at window position \<open>(mx, my)\<close>, left of the palette column.\<close>

definition paint_at_pointer :: "editor \<Rightarrow> int \<Rightarrow> int \<Rightarrow> editor option" where
  "paint_at_pointer st mx my = do {
     cx \<leftarrow> c_div mx (CELL_SIZE st);
     cy \<leftarrow> c_div my (CELL_SIZE st);
     paint_cell st cx cy
   }"

definition palette_click :: "editor \<Rightarrow> int \<Rightarrow> int \<Rightarrow> editor option" where
  "palette_click st mx my = do {
     width \<leftarrow> c_int (CELLS_X st * CELL_SIZE st);
     pal_x \<leftarrow> c_int (width + 10);
     relx \<leftarrow> c_int (mx - pal_x);
     let box = 24;
     let spacing = 8;
     if relx \<ge> 0 then do {
       col \<leftarrow> c_div relx (box + spacing);
       top \<leftarrow> c_int (my - 10);
       row \<leftarrow> c_div top (box + spacing);
       row2 \<leftarrow> c_int (row * 2);
       idx \<leftarrow> c_int (row2 + col);
       Some (if idx \<ge> 0 \<and> idx < PALETTE_COUNT then st\<lparr>current_color := idx\<rparr> else st)
     }
     else Some st
   }"

text \<open>
  \<open>fgets\<close> keeps the newline; the handlers cut it off. The keys \<open>[\<close> and \<open>]\<close> assign
  \<open>CELL_SIZE\<close> and then call \<open>SDL_SetWindowSize\<close>, which touches none of the variables.
\<close>

definition strip_newline :: "string \<Rightarrow> string" where
  "strip_newline fname =
     (if fname \<noteq> [] \<and> last fname = CHR 0x0A then butlast fname else fname)"

definition key_down :: "sdl_env \<Rightarrow> int \<Rightarrow> editor \<Rightarrow> editor option" where
  "key_down env k st =
     (if k = SDLK_ESCAPE then Some (st\<lparr>running := 0\<rparr>)
      else if k = SDLK_c then clear_canvas env st
      else if k = SDLK_g then Some (st\<lparr>show_grid := (if show_grid st = 0 then 1 else 0)\<rparr>)
      else if k = SDLK_s then
        (case fgets_stdin env of
           None \<Rightarrow> Some st
         | Some line \<Rightarrow>
             (let fname = strip_newline line
              in if length fname > 0
                 then map_option snd (save_canvas_as_bmp env fname st)
                 else Some st))
      else if k = SDLK_l then
        (case fgets_stdin env of
           None \<Rightarrow> Some st
         | Some line \<Rightarrow>
             (let fname = strip_newline line
              in if length fname > 0
                 then map_option snd (load_bmp_to_canvas env fname st)
                 else Some st))
      else if k = SDLK_LEFTBRACKET then
        Some (if CELL_SIZE st > 4 then st\<lparr>CELL_SIZE := CELL_SIZE st - 1\<rparr> else st)
      else if k = SDLK_RIGHTBRACKET then
        Some (st\<lparr>CELL_SIZE := CELL_SIZE st + 1\<rparr>)
      else if k \<ge> SDLK_0 \<and> k \<le> SDLK_9 then
        (let n = k - SDLK_0
         in Some (if n \<ge> 0 \<and> n < PALETTE_COUNT then st\<lparr>current_color := n\<rparr> else st))
      else Some st)"

text \<open>
  One pass of the body of \<open>while (SDL_PollEvent(&e))\<close>. Both pointer handlers compare \<open>mx\<close>
  with the \<open>int\<close> product \<open>CELLS_X * CELL_SIZE\<close>.
\<close>

fun handle_event :: "sdl_env \<Rightarrow> SDL_Event \<Rightarrow> editor \<Rightarrow> editor option" where
  "handle_event env SDL_QUIT st = Some (st\<lparr>running := 0\<rparr>)"
| "handle_event env (SDL_MOUSEBUTTONDOWN button mx my) st =
     (let st1 = st\<lparr>mouse_down := 1, mouse_button := button\<rparr>
      in do {
        width \<leftarrow> c_int (CELLS_X st1 * CELL_SIZE st1);
        if mx < width then paint_at_pointer st1 mx my else palette_click st1 mx my
      })"
| "handle_event env SDL_MOUSEBUTTONUP st = Some (st\<lparr>mouse_down := 0\<rparr>)"
| "handle_event env (SDL_MOUSEMOTION mx my) st =
     (if mouse_down st \<noteq> 0
      then do {
        width \<leftarrow> c_int (CELLS_X st * CELL_SIZE st);
        if mx < width then paint_at_pointer st mx my else Some st
      }
      else Some st)"
| "handle_event env (SDL_KEYDOWN k) st = key_down env k st"
| "handle_event env SDL_OTHEREVENT st = Some st"

text \<open>
  The variables as the C initialisers leave them, and the start of \<open>main\<close> up to
  \<open>clear_canvas()\<close>. The argument is the pair \<open>(atoi(argv[1]), atoi(argv[2]))\<close> when
  \<open>argc >= 3\<close>; \<open>main\<close> replaces a value \<open><= 0\<close> by 32 and tests nothing else, so the
  start has a result only when the \<open>int\<close> product of the two dimensions exists. When SDL
  then fails to start, \<open>main\<close> returns before the first event.
\<close>

definition initial_globals :: editor where
  "initial_globals =
     \<lparr>CELLS_X = 32, CELLS_Y = 32, CELL_SIZE = 16, canvas = None,
      palette = replicate (nat PALETTE_COUNT) \<lparr>c_r = 0, c_g = 0, c_b = 0, c_a = 0\<rparr>,
      current_color = 1, show_grid = 1, running = 1, mouse_down = 0, mouse_button = 0\<rparr>"

definition main_init :: "sdl_env \<Rightarrow> (int \<times> int) option \<Rightarrow> editor option" where
  "main_init env args = do {
     let st0 = (case args of
                  None \<Rightarrow> initial_globals
                | Some (ax, ay) \<Rightarrow>
                    initial_globals\<lparr>CELLS_X := (if ax \<le> 0 then 32 else ax),
                                    CELLS_Y := (if ay \<le> 0 then 32 else ay)\<rparr>);
     st1 \<leftarrow> ensure_canvas_allocated env st0;
     let st2 = st1\<lparr>palette := init_default_palette\<rparr>;
     clear_canvas env st2
   }"

text \<open>
  The states the program can be in between two events, whatever the surroundings answer
  and whichever events arrive.
\<close>

inductive reachable :: "editor \<Rightarrow> bool" where
  start: "main_init env args = Some st \<Longrightarrow> reachable st"
| step: "reachable st \<Longrightarrow> handle_event env e st = Some st' \<Longrightarrow> reachable st'"

subsection \<open>Notions used by the statements\<close>

text \<open>Two colours with the same red, green and blue channel.\<close>

definition same_rgb :: "SDL_Color \<Rightarrow> SDL_Color \<Rightarrow> bool" where
  "same_rgb c p \<longleftrightarrow> c_r c = c_r p \<and> c_g c = c_g p \<and> c_b c = c_b p"

text \<open>
  What the loop of \<open>nearest_palette_index\<close> keeps true before iteration \<open>i\<close>: either
  nothing has been looked at, or \<open>best\<close> is the first index below \<open>i\<close> at the least
  distance \<open>bestd\<close>.
\<close>

definition nearest_inv :: "SDL_Color list \<Rightarrow> SDL_Color \<Rightarrow> int \<Rightarrow> int \<Rightarrow> int \<Rightarrow> bool" where
  "nearest_inv pal c i best bestd \<longleftrightarrow>
     (i = 0 \<and> best = 0 \<and> bestd = INT32_MAX) \<or>
     (0 \<le> best \<and> best < i \<and> bestd = color_distance c (pal ! nat best)
        \<and> (\<forall>j. 0 \<le> j \<and> j < i \<longrightarrow> bestd \<le> color_distance c (pal ! nat j))
        \<and> (\<forall>j. 0 \<le> j \<and> j < best \<longrightarrow> bestd < color_distance c (pal ! nat j)))"

text \<open>The cells of the canvas buffer (none while \<open>canvas\<close> is \<open>NULL\<close>).\<close>

definition canvas_cells :: "editor \<Rightarrow> uint8 list" where
  "canvas_cells st = (case canvas st of None \<Rightarrow> [] | Some cv \<Rightarrow> cv)"

text \<open>
  The canvas is allocated and holds \<open>CELLS_X * CELLS_Y\<close> cells of a non-empty grid, as
  \<open>calloc\<close> delivers it: the number of cells is the \<open>int\<close> that \<open>calloc\<close> was given.
\<close>

definition grid_ok :: "editor \<Rightarrow> bool" where
  "grid_ok st \<longleftrightarrow>
     0 < CELLS_X st \<and> 0 < CELLS_Y st \<and> canvas st \<noteq> None
     \<and> int (length (canvas_cells st)) = CELLS_X st * CELLS_Y st
     \<and> CELLS_X st * CELLS_Y st \<le> INT32_MAX"

definition valid_index :: "uint8 \<Rightarrow> bool" where
  "valid_index v \<longleftrightarrow> uint v < PALETTE_COUNT"

text \<open>Every cell of the canvas holds an index below \<open>PALETTE_COUNT\<close>.\<close>

definition canvas_indices_valid :: "editor \<Rightarrow> bool" where
  "canvas_indices_valid st \<longleftrightarrow> list_all valid_index (canvas_cells st)"

definition current_color_valid :: "editor \<Rightarrow> bool" where
  "current_color_valid st \<longleftrightarrow> 0 \<le> current_color st \<and> current_color st < PALETTE_COUNT"

definition in_grid :: "editor \<Rightarrow> int \<Rightarrow> int \<Rightarrow> bool" where
  "in_grid st x y \<longleftrightarrow> 0 \<le> x \<and> x < CELLS_X st \<and> 0 \<le> y \<and> y < CELLS_Y st"

text \<open>
  A 24-bit surface as \<open>load_bmp_to_canvas\<close> reads it: at least one pixel, rows of
  \<open>pitch\<close> bytes that hold three bytes per pixel, \<open>h\<close> rows in the buffer, and a size in
  bytes that fits an \<open>int\<close> (SDL creates no larger surface).
\<close>

definition rgb24_ok :: "SDL_Surface \<Rightarrow> uint8 list \<Rightarrow> bool" where
  "rgb24_ok fmt pixels \<longleftrightarrow>
     surf_pixels fmt = Bytes pixels \<and> 0 < surf_w fmt \<and> 0 < surf_h fmt
     \<and> 3 * surf_w fmt \<le> surf_pitch fmt
     \<and> surf_h fmt * surf_pitch fmt \<le> int (length pixels)
     \<and> surf_h fmt * surf_pitch fmt \<le> INT32_MAX"

text \<open>The colour of pixel \<open>(x, y)\<close> of such a surface, fully opaque.\<close>

definition rgb24_pixel :: "SDL_Surface \<Rightarrow> uint8 list \<Rightarrow> int \<Rightarrow> int \<Rightarrow> SDL_Color" where
  "rgb24_pixel fmt pixels x y =
     \<lparr>c_r = pixels ! nat (y * surf_pitch fmt + x * 3),
      c_g = pixels ! nat (y * surf_pitch fmt + x * 3 + 1),
      c_b = pixels ! nat (y * surf_pitch fmt + x * 3 + 2),
      c_a = 255\<rparr>"

text \<open>The sample coordinate in exact arithmetic: \<open>floor((c + 0.5) / n * img)\<close>.\<close>

definition sample_exact :: "int \<Rightarrow> int \<Rightarrow> int \<Rightarrow> int" where
  "sample_exact c n img = \<lfloor>(of_int c + 1/2) / of_int n * (of_int img :: rat)\<rfloor>"

text \<open>
  A buffer of \<open>w * h\<close> entries, filled row by row: entry \<open>y' * w + x\<close> holds \<open>f x y'\<close> for
  every position before \<open>(i, y)\<close> in the order of the two loops.
\<close>

definition filled :: "int \<Rightarrow> int \<Rightarrow> (int \<Rightarrow> int \<Rightarrow> 'a) \<Rightarrow> int \<Rightarrow> int \<Rightarrow> 'a list \<Rightarrow> bool" where
  "filled w h f y i t \<longleftrightarrow>
     int (length t) = w * h \<and>
     (\<forall>x y'. 0 \<le> x \<and> x < w \<and> 0 \<le> y' \<and> y' < h \<and> (y' < y \<or> (y' = y \<and> x < i))
        \<longrightarrow> t ! nat (y' * w + x) = f x y')"

text \<open>The palette colour of the index stored in cell \<open>(x, y)\<close>.\<close>

definition cell_color :: "editor \<Rightarrow> int \<Rightarrow> int \<Rightarrow> SDL_Color" where
  "cell_color st x y =
     palette st ! nat (uint (canvas_cells st ! nat (y * CELLS_X st + x)))"

text \<open>
  A state that \<open>save_canvas_as_bmp\<close> can export: cells of at least one pixel, and an image
  whose \<open>4 * w * h\<close> bytes fit an \<open>int\<close>.
\<close>

definition export_ok :: "editor \<Rightarrow> bool" where
  "export_ok st \<longleftrightarrow>
     grid_ok st \<and> canvas_indices_valid st \<and> 0 < CELL_SIZE st
     \<and> int (length (palette st)) = PALETTE_COUNT
     \<and> 4 * (CELLS_X st * CELL_SIZE st) * (CELLS_Y st * CELL_SIZE st) \<le> INT32_MAX"

text \<open>The colour \<open>load_bmp_to_canvas\<close> samples for cell \<open>(cx, cy)\<close>.\<close>

definition sampled_color :: "editor \<Rightarrow> SDL_Surface \<Rightarrow> uint8 list \<Rightarrow> int \<Rightarrow> int \<Rightarrow> SDL_Color" where
  "sampled_color st fmt pixels cx cy =
     rgb24_pixel fmt pixels
       (clamp_coord (sample_coord cx (CELLS_X st) (surf_w fmt)) (surf_w fmt))
       (clamp_coord (sample_coord cy (CELLS_Y st) (surf_h fmt)) (surf_h fmt))"

text \<open>What holds of the state between any two events.\<close>

definition editor_inv :: "editor \<Rightarrow> bool" where
  "editor_inv st \<longleftrightarrow>
     grid_ok st \<and> canvas_indices_valid st \<and> current_color_valid st
     \<and> 4 \<le> CELL_SIZE st \<and> palette st = init_default_palette"

text \<open>A quiet environment and a 2 by 2 editor, as \<open>main\<close> leaves it when started with \<open>2 2\<close>.\<close>

definition example_env :: sdl_env where
  "example_env =
     \<lparr>calloc_ok = True, malloc_ok = True, fgets_stdin = None,
      SDL_BYTEORDER = SDL_LIL_ENDIAN, SDL_CreateRGBSurfaceFrom_ok = True,
      SDL_SaveBMP = (\<lambda>surf name. 0), SDL_LoadBMP = (\<lambda>name. None),
      SDL_ConvertSurfaceFormat = (\<lambda>surf. None)\<rparr>"

definition example_painted :: editor where
  "example_painted =
     \<lparr>CELLS_X = 2, CELLS_Y = 2, CELL_SIZE = 16, canvas = Some [0, 0, 0, 1],
      palette = init_default_palette, current_color = 1, show_grid = 1,
      running = 1, mouse_down = 1, mouse_button = 1\<rparr>"

definition example_editor :: editor where
  "example_editor =
     \<lparr>CELLS_X = 2, CELLS_Y = 2, CELL_SIZE = 16, canvas = Some [0, 0, 0, 0],
      palette = init_default_palette, current_color = 1, show_grid = 1,
      running = 1, mouse_down = 0, mouse_button = 0\<rparr>"

text \<open>A 1 by 1 image of one reddish pixel, and surroundings in which loading yields it.\<close>

definition example_image :: SDL_Surface where
  "example_image =
     \<lparr>surf_w = 1, surf_h = 1, surf_pitch = 4, surf_pixels = Bytes [250, 5, 5, 0],
      Rmask = 0x0000ff, Gmask = 0x00ff00, Bmask = 0xff0000, Amask = 0\<rparr>"

definition example_load_env :: sdl_env where
  "example_load_env =
     example_env\<lparr>SDL_LoadBMP := (\<lambda>name. Some example_image),
                 SDL_ConvertSurfaceFormat := (\<lambda>surf. Some surf)\<rparr>"

text \<open>
  A 5 by 1 editor, as \<open>main\<close> leaves it when started with \<open>5 1\<close>, and a 90 by 1 image, white
  but for a black pixel at \<open>x = 62\<close>.
\<close>

definition wide_editor :: editor where
  "wide_editor =
     \<lparr>CELLS_X = 5, CELLS_Y = 1, CELL_SIZE = 16, canvas = Some [0, 0, 0, 0, 0],
      palette = init_default_palette, current_color = 1, show_grid = 1,
      running = 1, mouse_down = 0, mouse_button = 0\<rparr>"

definition stripe_pixels :: "uint8 list" where
  "stripe_pixels = replicate 186 255 @ [0, 0, 0] @ replicate 83 255"

definition stripe_image :: SDL_Surface where
  "stripe_image =
     \<lparr>surf_w = 90, surf_h = 1, surf_pitch = 272, surf_pixels = Bytes stripe_pixels,
      Rmask = 0x0000ff, Gmask = 0x00ff00, Bmask = 0xff0000, Amask = 0\<rparr>"

definition stripe_env :: sdl_env where
  "stripe_env =
     example_env\<lparr>SDL_LoadBMP := (\<lambda>name. Some stripe_image),
                 SDL_ConvertSurfaceFormat := (\<lambda>surf. Some surf)\<rparr>"

text \<open>
  An image of width zero, and a disk with a bitmap of that header, a bitmap of the 1 by 1
  image, and a text file.
\<close>

definition empty_image :: SDL_Surface where
  "empty_image =
     \<lparr>surf_w = 0, surf_h = 1, surf_pitch = 0, surf_pixels = Bytes [],
      Rmask = 0x0000ff, Gmask = 0x00ff00, Bmask = 0xff0000, Amask = 0\<rparr>"

definition example_files :: "string \<Rightarrow> bmp_file" where
  "example_files name =
     (if name = ''empty.bmp'' then Bitmap empty_image
      else if name = ''dot.bmp'' then Bitmap example_image
      else if name = ''notes.txt'' then Not_a_bitmap
      else No_file)"

definition disk_env :: sdl_env where
  "disk_env =
     example_env\<lparr>SDL_LoadBMP := SDL_LoadBMP_from example_files,
                 SDL_ConvertSurfaceFormat := (\<lambda>surf. Some surf)\<rparr>"

text \<open>Surroundings in which a surface of width zero reaches \<open>load_bmp_to_canvas\<close>.\<close>

definition empty_env :: sdl_env where
  "empty_env =
     example_env\<lparr>SDL_LoadBMP := (\<lambda>name. Some empty_image),
                 SDL_ConvertSurfaceFormat := (\<lambda>surf. Some surf)\<rparr>"

text \<open>Surroundings in which \<open>SDL_SaveBMP\<close> fails.\<close>

definition readonly_env :: sdl_env where
  "readonly_env = example_env\<lparr>SDL_SaveBMP := (\<lambda>surf name. - 1)\<rparr>"

section \<open>Loops and arrays\<close>

lemma for_loop_rule:
  assumes "I i s" and "i \<le> n"
    and "\<And>j t. i \<le> j \<Longrightarrow> j < n \<Longrightarrow> I j t \<Longrightarrow> \<exists>t'. body j t = Some t' \<and> I (j + 1) t'"
  shows "\<exists>s'. for_loop i n body s = Some s' \<and> I n s'"
  using assms
proof (induction i n body s rule: for_loop.induct)
  case (1 i n body s)
  show ?case
  proof (cases "i < n")
    case True
    from "1.prems"(3)[of i s] True "1.prems"(1)
    obtain t' where t': "body i s = Some t'" "I (i + 1) t'" by auto
    have "\<exists>s'. for_loop (i + 1) n body t' = Some s' \<and> I n s'"
    proof (rule "1.IH"[OF True t'(1) t'(2)])
      show "i + 1 \<le> n" using True by simp
    next
      fix j t assume "i + 1 \<le> j" "j < n" "I j t"
      then show "\<exists>t'. body j t = Some t' \<and> I (j + 1) t'"
        using "1.prems"(3)[of j t] by simp
    qed
    then show ?thesis
      using True t'(1) by (subst for_loop.simps) simp
  next
    case False
    with "1.prems" have "i = n" by simp
    then show ?thesis using "1.prems"(1) by (subst for_loop.simps) simp
  qed
qed

lemma for_loop_empty: "n \<le> i \<Longrightarrow> for_loop i n body s = Some s"
  by (subst for_loop.simps) simp

lemma for_loop_preserves:
  assumes "for_loop i n body s = Some s'" and "P s"
    and "\<And>j t t'. P t \<Longrightarrow> body j t = Some t' \<Longrightarrow> P t'"
  shows "P s'"
  using assms
proof (induction i n body s rule: for_loop.induct)
  case (1 i n body s)
  show ?case
  proof (cases "i < n")
    case True
    from "1.prems"(1) True obtain t where t: "body i s = Some t" "for_loop (i + 1) n body t = Some s'"
      by (subst (asm) for_loop.simps) (auto split: option.splits)
    have "P t" using "1.prems"(2,3) t(1) by blast
    from "1.IH"[OF True t(1) t(2) this "1.prems"(3)] show ?thesis by simp
  next
    case False
    with "1.prems"(1) have "s' = s" by (subst (asm) for_loop.simps) simp
    then show ?thesis using "1.prems"(2) by simp
  qed
qed

lemma c_int_Some: "INT32_MIN \<le> v \<Longrightarrow> v \<le> INT32_MAX \<Longrightarrow> c_int v = Some v"
  by (simp add: c_int_def)

lemma c_int_nonneg: "0 \<le> v \<Longrightarrow> v \<le> INT32_MAX \<Longrightarrow> c_int v = Some v"
  by (simp add: c_int_def INT32_MIN_def)

lemma c_int_eq_Some: "c_int v = Some w \<longleftrightarrow> w = v \<and> INT32_MIN \<le> v \<and> v \<le> INT32_MAX"
  by (auto simp: c_int_def)

lemma c_div_nonneg: "0 \<le> x \<Longrightarrow> x \<le> INT32_MAX \<Longrightarrow> 0 < y \<Longrightarrow> c_div x y = Some (x div y)"
proof -
  assume a: "0 \<le> x" "x \<le> INT32_MAX" "0 < y"
  have q: "0 \<le> x div y" using a by (simp add: pos_imp_zdiv_nonneg_iff)
  have "y * (x div y) + x mod y = x" by simp
  moreover have "0 \<le> x mod y" using a by simp
  moreover have "x div y \<le> y * (x div y)" using q a by (simp add: mult_le_cancel_right1)
  ultimately have "x div y \<le> x" by linarith
  then have le: "x div y \<le> INT32_MAX" using a by linarith
  have e: "sgn x * sgn y * (\<bar>x\<bar> div \<bar>y\<bar>) = x div y" using a by (cases "x = 0") simp_all
  have "c_div x y = c_int (sgn x * sgn y * (\<bar>x\<bar> div \<bar>y\<bar>))" using a by (simp add: c_div_def)
  also have "\<dots> = c_int (x div y)" by (simp only: e)
  also have "\<dots> = Some (x div y)" using q le by (rule c_int_nonneg)
  finally show ?thesis .
qed

lemma c_div_defined:
  assumes "INT32_MIN \<le> x" "x \<le> INT32_MAX" "0 < y"
  shows "\<exists>q. c_div x y = Some q"
proof -
  have q: "0 \<le> \<bar>x\<bar> div y" using assms by (simp add: pos_imp_zdiv_nonneg_iff)
  have "y * (\<bar>x\<bar> div y) + \<bar>x\<bar> mod y = \<bar>x\<bar>" by simp
  moreover have "0 \<le> \<bar>x\<bar> mod y" using assms by simp
  moreover have "\<bar>x\<bar> div y \<le> y * (\<bar>x\<bar> div y)" using q assms by (simp add: mult_le_cancel_right1)
  ultimately have le: "\<bar>x\<bar> div y \<le> \<bar>x\<bar>" by linarith
  have y: "\<bar>y\<bar> = y" "sgn y = 1" using assms by simp_all
  have d: "c_div x y = c_int (sgn x * sgn y * (\<bar>x\<bar> div \<bar>y\<bar>))"
    using assms(3) by (simp add: c_div_def)
  consider "x < 0" | "0 \<le> x" by linarith
  then show ?thesis
  proof cases
    case 1
    then have e: "sgn x * sgn y * (\<bar>x\<bar> div \<bar>y\<bar>) = - (\<bar>x\<bar> div y)" using y by simp
    have "INT32_MIN \<le> - (\<bar>x\<bar> div y)" using le assms(1) 1 by simp
    moreover have "- (\<bar>x\<bar> div y) \<le> INT32_MAX" using q by (simp add: INT32_MAX_def)
    ultimately have "c_int (- (\<bar>x\<bar> div y)) = Some (- (\<bar>x\<bar> div y))" by (rule c_int_Some)
    then show ?thesis unfolding d e by simp
  next
    case 2
    then have e: "sgn x * sgn y * (\<bar>x\<bar> div \<bar>y\<bar>) = \<bar>x\<bar> div y"
      using y by (cases "x = 0") simp_all
    have "\<bar>x\<bar> div y \<le> INT32_MAX" using le assms(2) 2 by simp
    with q have "c_int (\<bar>x\<bar> div y) = Some (\<bar>x\<bar> div y)" by (rule c_int_nonneg)
    then show ?thesis unfolding d e by simp
  qed
qed

lemma canvas_cells_Some: "canvas st = Some cv \<Longrightarrow> canvas_cells st = cv"
  by (simp add: canvas_cells_def)

lemma grid_okD:
  assumes "grid_ok st"
  obtains cv where "canvas st = Some cv" "int (length cv) = CELLS_X st * CELLS_Y st"
    "0 < CELLS_X st" "0 < CELLS_Y st" "CELLS_X st * CELLS_Y st \<le> INT32_MAX"
  using assms by (auto simp: grid_ok_def canvas_cells_def)

lemma grid_ok_examples: "grid_ok example_painted" "grid_ok example_editor" "grid_ok wide_editor"
  by (simp_all add: grid_ok_def canvas_cells_def example_painted_def example_editor_def
      wide_editor_def INT32_MAX_def)

lemma store_at_Some:
  "store_at xs i v = Some ys \<longleftrightarrow> 0 \<le> i \<and> i < int (length xs) \<and> ys = xs[nat i := v]"
  by (auto simp: store_at_def)

lemma load_at_Some:
  "load_at xs i = Some v \<longleftrightarrow> 0 \<le> i \<and> i < int (length xs) \<and> v = xs ! nat i"
  by (auto simp: load_at_def)

lemma list_all_update: "list_all P xs \<Longrightarrow> P v \<Longrightarrow> list_all P (xs[k := v])"
  by (metis (no_types, lifting) insertE list_all_iff set_update_subset_insert subsetD)

lemma cell_index_bounds:
  fixes x y w h :: int
  assumes "0 \<le> x" "x < w" "0 \<le> y" "y < h"
  shows "0 \<le> y * w + x" and "y * w + x < w * h"
proof -
  have w: "0 < w" using assms by simp
  show "0 \<le> y * w + x" using assms w by simp
  have "y * w + x < y * w + w" using assms by simp
  also have "\<dots> = (y + 1) * w" by (simp add: algebra_simps)
  also have "\<dots> \<le> h * w" using assms w by (intro mult_right_mono) simp_all
  finally show "y * w + x < w * h" by (simp add: mult.commute)
qed

text \<open>Inside the grid the index of a cell and the product in it fit an \<open>int\<close>.\<close>

lemma cell_index_int:
  fixes x y w h :: int
  assumes "0 \<le> x" "x < w" "0 \<le> y" "y < h" "w * h \<le> INT32_MAX"
  shows "c_int (y * w) = Some (y * w)" and "c_int (y * w + x) = Some (y * w + x)"
proof -
  from cell_index_bounds[OF assms(1-4)] have k: "0 \<le> y * w + x" "y * w + x < w * h" .
  have p: "0 \<le> y * w" using assms by simp
  have "y * w \<le> y * w + x" using assms by simp
  then have "y * w \<le> INT32_MAX" "y * w + x \<le> INT32_MAX" using k assms(5) by linarith+
  then show "c_int (y * w) = Some (y * w)" "c_int (y * w + x) = Some (y * w + x)"
    using p k(1) by (simp_all add: c_int_nonneg)
qed

lemma grid_cell_int:
  assumes "grid_ok st" "in_grid st x y"
  shows "c_int (y * CELLS_X st) = Some (y * CELLS_X st)"
    and "c_int (y * CELLS_X st + x) = Some (y * CELLS_X st + x)"
    and "0 \<le> y * CELLS_X st + x" and "y * CELLS_X st + x < int (length (canvas_cells st))"
proof -
  from assms(1) obtain cv where cv: "canvas st = Some cv" "int (length cv) = CELLS_X st * CELLS_Y st"
    and fits: "CELLS_X st * CELLS_Y st \<le> INT32_MAX"
    by (auto elim: grid_okD)
  have b: "0 \<le> x" "x < CELLS_X st" "0 \<le> y" "y < CELLS_Y st"
    using assms(2) by (simp_all add: in_grid_def)
  show "c_int (y * CELLS_X st) = Some (y * CELLS_X st)"
    and "c_int (y * CELLS_X st + x) = Some (y * CELLS_X st + x)"
    using cell_index_int[OF b fits] by simp_all
  show "0 \<le> y * CELLS_X st + x" and "y * CELLS_X st + x < int (length (canvas_cells st))"
    using cell_index_bounds[OF b] cv by (simp_all add: canvas_cells_Some)
qed

lemma uint_word_of_int_small:
  "0 \<le> i \<Longrightarrow> i < PALETTE_COUNT \<Longrightarrow> uint (word_of_int i :: uint8) = i"
  by (simp add: PALETTE_COUNT_def uint_word_of_int take_bit_int_eq_self)

lemma valid_index_word_of_int:
  "0 \<le> i \<Longrightarrow> i < PALETTE_COUNT \<Longrightarrow> valid_index (word_of_int i)"
  by (simp add: valid_index_def uint_word_of_int_small)

lemma valid_index_zero: "valid_index 0"
  by (simp add: valid_index_def PALETTE_COUNT_def)

lemma cell_index_div:
  fixes x y w :: int
  assumes "0 \<le> x" "x < w"
  shows "(y * w + x) div w = y" and "(y * w + x) mod w = x"
  using assms by (simp_all add: div_pos_pos_trivial)

lemma cell_index_inj:
  fixes x y x' y' w :: int
  assumes "0 \<le> x" "x < w" "0 \<le> x'" "x' < w" "y * w + x = y' * w + x'"
  shows "x = x' \<and> y = y'"
  using cell_index_div[OF assms(1,2), of y] cell_index_div[OF assms(3,4), of y'] assms(5)
  by simp

lemma filled_step:
  assumes inv: "filled w h f y i t" and i: "0 \<le> i" "i < w" and y: "0 \<le> y" "y < h"
  shows "filled w h f y (i + 1) (t[nat (y * w + i) := f i y])"
  unfolding filled_def
proof (intro conjI allI impI)
  show "int (length (t[nat (y * w + i) := f i y])) = w * h"
    using inv by (simp add: filled_def)
next
  fix x y'
  assume a: "0 \<le> x \<and> x < w \<and> 0 \<le> y' \<and> y' < h \<and> (y' < y \<or> y' = y \<and> x < i + 1)"
  have k: "0 \<le> y * w + i" "y * w + i < w * h" using cell_index_bounds[OF i y] by simp_all
  have k': "0 \<le> y' * w + x" "y' * w + x < w * h" using a cell_index_bounds[of x w y' h] by simp_all
  have len: "int (length t) = w * h" using inv by (simp add: filled_def)
  show "t[nat (y * w + i) := f i y] ! nat (y' * w + x) = f x y'"
  proof (cases "x = i \<and> y' = y")
    case True
    then show ?thesis using k len by simp
  next
    case False
    then have "y' * w + x \<noteq> y * w + i"
      using cell_index_inj[of x w i y' y] a i by blast
    then have "nat (y' * w + x) \<noteq> nat (y * w + i)" using k k' by simp
    moreover have "y' < y \<or> (y' = y \<and> x < i)" using a False by auto
    ultimately show ?thesis using inv a unfolding filled_def by simp
  qed
qed

lemma filled_next_row: "filled w h f y w t \<Longrightarrow> filled w h f (y + 1) 0 t"
  unfolding filled_def by (auto; fastforce)

lemma fill_rows:
  assumes w: "0 \<le> w" and h: "0 \<le> h" and len: "int (length t0) = w * h"
    and body: "\<And>x y t. 0 \<le> x \<Longrightarrow> x < w \<Longrightarrow> 0 \<le> y \<Longrightarrow> y < h \<Longrightarrow> int (length t) = w * h
                 \<Longrightarrow> body y x t = Some (t[nat (y * w + x) := f x y])"
  shows "\<exists>t. for_loop 0 h (\<lambda>y. for_loop 0 w (body y)) t0 = Some t \<and> int (length t) = w * h
           \<and> (\<forall>x y. 0 \<le> x \<and> x < w \<and> 0 \<le> y \<and> y < h \<longrightarrow> t ! nat (y * w + x) = f x y)"
proof -
  have row: "\<exists>t'. for_loop 0 w (body y) t = Some t' \<and> filled w h f (y + 1) 0 t'"
    if y: "0 \<le> y" "y < h" and inv: "filled w h f y 0 t" for y t
  proof -
    have "\<exists>t'. for_loop 0 w (body y) t = Some t' \<and> filled w h f y w t'"
    proof (rule for_loop_rule[where I = "filled w h f y"])
      show "filled w h f y 0 t" by fact
      show "0 \<le> w" by fact
    next
      fix j u assume j: "0 \<le> j" "j < w" and u: "filled w h f y j u"
      have "int (length u) = w * h" using u by (simp add: filled_def)
      from body[OF j y this] filled_step[OF u j y]
      show "\<exists>u'. body y j u = Some u' \<and> filled w h f y (j + 1) u'" by simp
    qed
    then show ?thesis using filled_next_row by blast
  qed
  have "\<exists>t. for_loop 0 h (\<lambda>y. for_loop 0 w (body y)) t0 = Some t \<and> filled w h f h 0 t"
  proof (rule for_loop_rule[where I = "\<lambda>y. filled w h f y 0"])
    show "filled w h f 0 0 t0" using len by (auto simp: filled_def)
    show "0 \<le> h" by fact
  next
    fix j u assume "0 \<le> j" "j < h" "filled w h f j 0 u"
    then show "\<exists>u'. for_loop 0 w (body j) u = Some u' \<and> filled w h f (j + 1) 0 u'"
      by (rule row)
  qed
  then show ?thesis unfolding filled_def by auto
qed

section \<open>The nearest palette colour\<close>

lemma uint8_bounds: "0 \<le> uint (x :: uint8) \<and> uint x \<le> 255"
  using uint_lt2p[of x] by simp

lemma color_distance_nonneg: "0 \<le> color_distance c p"
  by (simp add: color_distance_def Let_def)

lemma sq_diff_bound:
  fixes x y :: int
  assumes "0 \<le> x" "x \<le> 255" "0 \<le> y" "y \<le> 255"
  shows "(x - y) * (x - y) \<le> 65025"
proof -
  have "\<bar>x - y\<bar> \<le> 255" using assms by simp
  then have "\<bar>x - y\<bar> * \<bar>x - y\<bar> \<le> 255 * 255"
    by (intro mult_mono) simp_all
  then show ?thesis by (simp add: abs_mult_self_eq)
qed

lemma color_distance_upper: "color_distance c p \<le> 195075"
proof -
  have "(uint (c_r c) - uint (c_r p)) * (uint (c_r c) - uint (c_r p)) \<le> 65025"
       "(uint (c_g c) - uint (c_g p)) * (uint (c_g c) - uint (c_g p)) \<le> 65025"
       "(uint (c_b c) - uint (c_b p)) * (uint (c_b c) - uint (c_b p)) \<le> 65025"
    using uint8_bounds by (simp_all add: sq_diff_bound)
  then show ?thesis by (simp add: color_distance_def Let_def)
qed

lemma sum3_sq_zero:
  fixes x y z :: int
  shows "x * x + y * y + z * z = 0 \<longleftrightarrow> x = 0 \<and> y = 0 \<and> z = 0"
proof
  assume h: "x * x + y * y + z * z = 0"
  have "0 \<le> x * x" "0 \<le> y * y" "0 \<le> z * z" by simp_all
  with h have "x * x = 0" "y * y = 0" "z * z = 0" by linarith+
  then show "x = 0 \<and> y = 0 \<and> z = 0" by simp
qed simp

lemma color_distance_zero_iff: "color_distance c p = 0 \<longleftrightarrow> same_rgb c p"
  by (simp add: color_distance_def Let_def sum3_sq_zero same_rgb_def word_uint_eq_iff)

lemma nearest_inv_step:
  assumes "nearest_inv pal c i best bestd" "0 \<le> i"
  shows "color_distance c (pal ! nat i) < bestd \<Longrightarrow> nearest_inv pal c (i + 1) i (color_distance c (pal ! nat i))"
    and "\<not> color_distance c (pal ! nat i) < bestd \<Longrightarrow> nearest_inv pal c (i + 1) best bestd"
proof -
  let ?d = "color_distance c (pal ! nat i)"
  { assume lt: "?d < bestd"
    have "\<forall>j. 0 \<le> j \<and> j < i \<longrightarrow> ?d < color_distance c (pal ! nat j)"
      using assms lt unfolding nearest_inv_def by force
    moreover have "\<forall>j. 0 \<le> j \<and> j < i + 1 \<longrightarrow> ?d \<le> color_distance c (pal ! nat j)"
    proof (intro allI impI)
      fix j assume "0 \<le> j \<and> j < i + 1"
      then consider "j < i" "0 \<le> j" | "j = i" by linarith
      then show "?d \<le> color_distance c (pal ! nat j)"
        using calculation by cases auto
    qed
    ultimately show "nearest_inv pal c (i + 1) i ?d"
      using assms(2) unfolding nearest_inv_def by simp }
  { assume ge: "\<not> ?d < bestd"
    have ne: "\<not> (i = 0 \<and> best = 0 \<and> bestd = INT32_MAX)"
      using ge color_distance_upper[of c "pal ! nat i"] by (auto simp: INT32_MAX_def)
    then have inv: "0 \<le> best" "best < i" "bestd = color_distance c (pal ! nat best)"
        "\<forall>j. 0 \<le> j \<and> j < i \<longrightarrow> bestd \<le> color_distance c (pal ! nat j)"
        "\<forall>j. 0 \<le> j \<and> j < best \<longrightarrow> bestd < color_distance c (pal ! nat j)"
      using assms(1) unfolding nearest_inv_def by auto
    have "\<forall>j. 0 \<le> j \<and> j < i + 1 \<longrightarrow> bestd \<le> color_distance c (pal ! nat j)"
    proof (intro allI impI)
      fix j assume "0 \<le> j \<and> j < i + 1"
      then consider "j < i" "0 \<le> j" | "j = i" by linarith
      then show "bestd \<le> color_distance c (pal ! nat j)"
        using inv(4) ge by cases auto
    qed
    then show "nearest_inv pal c (i + 1) best bestd"
      using inv unfolding nearest_inv_def by simp }
qed

lemma nearest_loop_inv:
  assumes "nearest_inv pal c i best bestd" "0 \<le> i" "i \<le> PALETTE_COUNT"
  shows "nearest_inv pal c PALETTE_COUNT (nearest_loop pal c i best bestd)
           (color_distance c (pal ! nat (nearest_loop pal c i best bestd)))"
  using assms
proof (induction pal c i best bestd rule: nearest_loop.induct)
  case (1 pal c i best bestd)
  let ?d = "color_distance c (pal ! nat i)"
  show ?case
  proof (cases "i < PALETTE_COUNT")
    case True
    show ?thesis
    proof (cases "?d < bestd")
      case lt: True
      have "nearest_inv pal c (i + 1) i ?d"
        using nearest_inv_step(1)[OF "1.prems"(1,2) lt] .
      from "1.IH"(1)[OF True refl lt this] True "1.prems"(2)
      show ?thesis using True lt by (subst (1 2) nearest_loop.simps) (simp add: Let_def)
    next
      case ge: False
      have "nearest_inv pal c (i + 1) best bestd"
        using nearest_inv_step(2)[OF "1.prems"(1,2) ge] .
      from "1.IH"(2)[OF True refl ge this] True "1.prems"(2)
      show ?thesis using True ge by (subst (1 2) nearest_loop.simps) (simp add: Let_def)
    qed
  next
    case False
    with "1.prems" have eq: "i = PALETTE_COUNT" by simp
    have pos: "0 < PALETTE_COUNT" by (simp add: PALETTE_COUNT_def)
    have "\<not> (i = 0 \<and> best = 0 \<and> bestd = INT32_MAX)" using eq pos by simp
    then have "bestd = color_distance c (pal ! nat best)"
      using "1.prems"(1) unfolding nearest_inv_def by auto
    then show ?thesis using False "1.prems"(1) eq
      by (subst (1 2) nearest_loop.simps) simp
  qed
qed

lemma color_distance_alpha: "color_distance (c\<lparr>c_a := x\<rparr>) p = color_distance c p"
  by (simp add: color_distance_def)

lemma nearest_loop_alpha:
  "nearest_loop pal (c\<lparr>c_a := x\<rparr>) i best bestd = nearest_loop pal c i best bestd"
proof (induction pal c i best bestd rule: nearest_loop.induct)
  case (1 pal c i best bestd)
  show ?case
  proof (cases "i < PALETTE_COUNT")
    case True
    then show ?thesis
      using "1.IH" by (subst (1 2) nearest_loop.simps) (simp add: Let_def color_distance_alpha)
  next
    case False
    then show ?thesis by (subst (1 2) nearest_loop.simps) simp
  qed
qed

lemma nearest_palette_index_inv:
  "nearest_inv pal c PALETTE_COUNT (nearest_palette_index pal c)
     (color_distance c (pal ! nat (nearest_palette_index pal c)))"
  unfolding nearest_palette_index_def
  by (rule nearest_loop_inv) (simp_all add: nearest_inv_def PALETTE_COUNT_def)

lemma nearest_palette_index_range:
  "0 \<le> nearest_palette_index pal c \<and> nearest_palette_index pal c < PALETTE_COUNT"
  using nearest_palette_index_inv[of pal c]
  by (auto simp: nearest_inv_def PALETTE_COUNT_def)

lemma nearest_palette_index_least:
  assumes "0 \<le> j" "j < PALETTE_COUNT"
  shows "color_distance c (pal ! nat (nearest_palette_index pal c)) \<le> color_distance c (pal ! nat j)"
  using nearest_palette_index_inv[of pal c] assms
  by (auto simp: nearest_inv_def PALETTE_COUNT_def)

lemma nearest_palette_index_first:
  assumes "0 \<le> j" "j < nearest_palette_index pal c"
  shows "color_distance c (pal ! nat (nearest_palette_index pal c)) < color_distance c (pal ! nat j)"
  using nearest_palette_index_inv[of pal c] assms
  by (auto simp: nearest_inv_def PALETTE_COUNT_def)

lemma nearest_palette_index_exact:
  assumes k: "0 \<le> k" "k < PALETTE_COUNT" and same: "same_rgb c (pal ! nat k)"
  shows "same_rgb c (pal ! nat (nearest_palette_index pal c))"
    and "nearest_palette_index pal c \<le> k"
    and "(\<forall>j. 0 \<le> j \<and> j < k \<longrightarrow> \<not> same_rgb (pal ! nat j) (pal ! nat k))
           \<Longrightarrow> nearest_palette_index pal c = k"
proof -
  let ?n = "nearest_palette_index pal c"
  have zero: "color_distance c (pal ! nat k) = 0"
    using same by (simp add: color_distance_zero_iff)
  have "color_distance c (pal ! nat ?n) \<le> 0"
    using nearest_palette_index_least[OF k, of c pal] zero by simp
  then have nz: "color_distance c (pal ! nat ?n) = 0"
    using color_distance_nonneg[of c "pal ! nat ?n"] by simp
  then show s: "same_rgb c (pal ! nat ?n)" by (simp add: color_distance_zero_iff)
  show le: "?n \<le> k"
  proof (rule ccontr)
    assume "\<not> ?n \<le> k"
    then have "k < ?n" by simp
    from nearest_palette_index_first[OF k(1) this] zero nz show False by simp
  qed
  assume distinct: "\<forall>j. 0 \<le> j \<and> j < k \<longrightarrow> \<not> same_rgb (pal ! nat j) (pal ! nat k)"
  show "?n = k"
  proof (rule ccontr)
    assume "?n \<noteq> k"
    with le have "?n < k" by simp
    moreover have "0 \<le> ?n" using nearest_palette_index_range by simp
    ultimately have "\<not> same_rgb (pal ! nat ?n) (pal ! nat k)" using distinct by simp
    with s same show False by (simp add: same_rgb_def)
  qed
qed

text \<open>
  Claim C3. \<open>nearest_palette_index\<close> returns an index in \<open>[0, PALETTE_COUNT)\<close> whose squared
  distance in red, green and blue to the input is the least over all palette entries; no
  earlier entry is as near (ties go to the lowest index); on an input with the red, green
  and blue of entry \<open>k\<close> it returns the lowest index with that colour, which is \<open>k\<close> when no
  earlier entry has it; and the alpha of the input plays no part.
\<close>

theorem nearest_palette_index_spec:
  "0 \<le> nearest_palette_index pal c \<and> nearest_palette_index pal c < PALETTE_COUNT
   \<and> (\<forall>p. color_distance c p =
          (uint (c_r c) - uint (c_r p))\<^sup>2 + (uint (c_g c) - uint (c_g p))\<^sup>2
            + (uint (c_b c) - uint (c_b p))\<^sup>2)
   \<and> (\<forall>j. 0 \<le> j \<and> j < PALETTE_COUNT \<longrightarrow>
          color_distance c (pal ! nat (nearest_palette_index pal c))
            \<le> color_distance c (pal ! nat j))
   \<and> (\<forall>j. 0 \<le> j \<and> j < nearest_palette_index pal c \<longrightarrow>
          color_distance c (pal ! nat (nearest_palette_index pal c))
            < color_distance c (pal ! nat j))
   \<and> (\<forall>k. 0 \<le> k \<and> k < PALETTE_COUNT \<and> same_rgb c (pal ! nat k) \<longrightarrow>
          same_rgb c (pal ! nat (nearest_palette_index pal c))
          \<and> nearest_palette_index pal c \<le> k
          \<and> ((\<forall>j. 0 \<le> j \<and> j < k \<longrightarrow> \<not> same_rgb (pal ! nat j) (pal ! nat k))
                \<longrightarrow> nearest_palette_index pal c = k))
   \<and> nearest_palette_index pal (c\<lparr>c_a := x\<rparr>) = nearest_palette_index pal c"
proof (intro conjI allI impI)
  show "nearest_palette_index pal (c\<lparr>c_a := x\<rparr>) = nearest_palette_index pal c"
    by (simp add: nearest_palette_index_def nearest_loop_alpha)
next
  fix p show "color_distance c p =
          (uint (c_r c) - uint (c_r p))\<^sup>2 + (uint (c_g c) - uint (c_g p))\<^sup>2
            + (uint (c_b c) - uint (c_b p))\<^sup>2"
    by (simp add: color_distance_def Let_def power2_eq_square)
qed (use nearest_palette_index_range nearest_palette_index_least nearest_palette_index_first
      nearest_palette_index_exact in \<open>blast+\<close>)

theorem nearest_palette_index_spec_witness:
  "same_rgb \<lparr>c_r = 139, c_g = 69, c_b = 19, c_a = 0\<rparr> (init_default_palette ! nat 11)
   \<and> nearest_palette_index init_default_palette \<lparr>c_r = 139, c_g = 69, c_b = 19, c_a = 0\<rparr> \<le> 11
   \<and> 0 \<le> nearest_palette_index init_default_palette \<lparr>c_r = 139, c_g = 69, c_b = 19, c_a = 0\<rparr>"
proof -
  let ?c = "\<lparr>c_r = 139, c_g = 69, c_b = 19, c_a = 0\<rparr>"
  have h: "(0::int) \<le> 11 \<and> 11 < PALETTE_COUNT \<and> same_rgb ?c (init_default_palette ! nat 11)"
    by (simp add: PALETTE_COUNT_def same_rgb_def init_default_palette_def)
  from nearest_palette_index_spec[of init_default_palette ?c] h
  show ?thesis by blast
qed

section \<open>Painting, clearing, resizing the cells\<close>

text \<open>
  Claim C7. With the left button down and a current colour \<open>i\<close> in
  \<open>[0, PALETTE_COUNT)\<close>, painting a cell \<open>(x, y)\<close> of the grid stores \<open>i\<close> there: reading the
  cell afterwards gives \<open>i\<close>. For a cell outside the grid the paint block returns the
  state as it was, and it has a result (no error is signalled).
\<close>

theorem paint_cell_get_cell:
  "(grid_ok st \<and> mouse_button st = SDL_BUTTON_LEFT \<and> current_color_valid st \<and> in_grid st x y
      \<longrightarrow> (\<exists>st'. paint_cell st x y = Some st' \<and> get_cell st' x y = Some (current_color st)))
   \<and> (\<not> in_grid st x y \<longrightarrow> paint_cell st x y = Some st)"
proof (intro conjI impI)
  assume h: "grid_ok st \<and> mouse_button st = SDL_BUTTON_LEFT \<and> current_color_valid st \<and> in_grid st x y"
  then obtain cv where cv: "canvas st = Some cv" "int (length cv) = CELLS_X st * CELLS_Y st"
    by (auto elim: grid_okD)
  have b: "0 \<le> x" "x < CELLS_X st" "0 \<le> y" "y < CELLS_Y st"
    using h by (simp_all add: in_grid_def)
  let ?k = "y * CELLS_X st + x"
  have k: "0 \<le> ?k" "?k < int (length cv)"
    using cell_index_bounds[OF b] cv(2) by simp_all
  have ci: "c_int (y * CELLS_X st) = Some (y * CELLS_X st)" "c_int ?k = Some ?k"
    using grid_cell_int(1,2)[of st x y] h by simp_all
  let ?st' = "st\<lparr>canvas := Some (cv[nat ?k := word_of_int (current_color st)])\<rparr>"
  have "paint_cell st x y = Some ?st'"
    using h b cv k by (simp add: paint_cell_def store_at_def ci)
  moreover have "get_cell ?st' x y = Some (current_color st)"
    using k h by (simp add: get_cell_def load_at_def current_color_valid_def uint_word_of_int_small ci)
  ultimately show "\<exists>st'. paint_cell st x y = Some st' \<and> get_cell st' x y = Some (current_color st)"
    by blast
next
  assume "\<not> in_grid st x y"
  then have "\<not> (x \<ge> 0 \<and> x < CELLS_X st \<and> y \<ge> 0 \<and> y < CELLS_Y st)"
    by (auto simp: in_grid_def)
  then show "paint_cell st x y = Some st"
    unfolding paint_cell_def by (simp only: if_False)
qed

theorem paint_cell_get_cell_witness:
  "grid_ok example_painted \<and> mouse_button example_painted = SDL_BUTTON_LEFT
   \<and> current_color_valid example_painted \<and> in_grid example_painted 0 1
   \<and> (\<exists>st'. paint_cell example_painted 0 1 = Some st' \<and> get_cell st' 0 1 = Some 1)
   \<and> \<not> in_grid example_painted 2 0
   \<and> paint_cell example_painted 2 0 = Some example_painted"
proof -
  have h: "grid_ok example_painted \<and> mouse_button example_painted = SDL_BUTTON_LEFT
      \<and> current_color_valid example_painted \<and> in_grid example_painted 0 1"
    using grid_ok_examples(1)
    by (simp add: example_painted_def SDL_BUTTON_LEFT_def
        current_color_valid_def PALETTE_COUNT_def in_grid_def)
  have o: "\<not> in_grid example_painted 2 0"
    by (simp add: in_grid_def example_painted_def)
  have c: "current_color example_painted = 1" by (simp add: example_painted_def)
  from paint_cell_get_cell[of example_painted 0 1] paint_cell_get_cell[of example_painted 2 0] h o c
  show ?thesis by simp
qed

text \<open>
  Claim C8. After \<open>clear_canvas\<close>, every cell of the grid reads \<open>0\<close>, whatever the canvas
  held before.
\<close>

theorem clear_canvas_all_zero:
  assumes "grid_ok st"
  shows "\<exists>st'. clear_canvas env st = Some st' \<and>
           (\<forall>x y. in_grid st x y \<longrightarrow> get_cell st' x y = Some 0)"
proof -
  from assms obtain cv where cv: "canvas st = Some cv" "int (length cv) = CELLS_X st * CELLS_Y st"
    and fits: "CELLS_X st * CELLS_Y st \<le> INT32_MAX"
    by (auto elim: grid_okD)
  let ?n = "CELLS_X st * CELLS_Y st"
  let ?st' = "st\<lparr>canvas := Some (replicate (nat ?n) 0 @ drop (nat ?n) cv)\<rparr>"
  have n: "0 \<le> ?n" using cv(2) by (metis of_nat_0_le_iff)
  have c: "clear_canvas env st = Some ?st'"
    using cv n fits
    by (simp add: clear_canvas_def ensure_canvas_allocated_def memset_def c_int_nonneg)
  have "get_cell ?st' x y = Some 0" if "in_grid st x y" for x y
  proof -
    have b: "0 \<le> x" "x < CELLS_X st" "0 \<le> y" "y < CELLS_Y st"
      using that by (simp_all add: in_grid_def)
    have k: "0 \<le> y * CELLS_X st + x" "y * CELLS_X st + x < ?n"
      using cell_index_bounds[OF b] by simp_all
    then have "nat (y * CELLS_X st + x) < nat ?n" by simp
    then have "(replicate (nat ?n) (0::uint8) @ drop (nat ?n) cv) ! nat (y * CELLS_X st + x) = 0"
      by (simp add: nth_append)
    then show ?thesis
      using k cv(2) cell_index_int[OF b fits] by (simp add: get_cell_def load_at_def)
  qed
  with c show ?thesis by blast
qed

theorem clear_canvas_all_zero_witness:
  "grid_ok example_painted \<and> get_cell example_painted 1 1 = Some 1
   \<and> (\<exists>st'. clear_canvas example_env example_painted = Some st' \<and> get_cell st' 1 1 = Some 0)"
proof -
  have g: "grid_ok example_painted" by (rule grid_ok_examples)
  have i: "in_grid example_painted 1 1"
    by (simp add: in_grid_def example_painted_def)
  have b: "get_cell example_painted 1 1 = Some 1"
    by code_simp
  from clear_canvas_all_zero[OF g, of example_env] i g b show ?thesis by blast
qed

text \<open>
  Claim C9. The keys \<open>[\<close> and \<open>]\<close> change \<open>CELL_SIZE\<close> only: the canvas buffer (the same
  allocation, with every cell), the palette, the current colour and the grid dimensions
  are as before, from every state.
\<close>

theorem cell_size_keys_frame:
  "(\<exists>st'. handle_event env (SDL_KEYDOWN SDLK_LEFTBRACKET) st = Some st'
       \<and> canvas st' = canvas st \<and> palette st' = palette st
       \<and> current_color st' = current_color st
       \<and> CELLS_X st' = CELLS_X st \<and> CELLS_Y st' = CELLS_Y st
       \<and> CELL_SIZE st' = (if CELL_SIZE st > 4 then CELL_SIZE st - 1 else CELL_SIZE st))
   \<and> (\<exists>st'. handle_event env (SDL_KEYDOWN SDLK_RIGHTBRACKET) st = Some st'
       \<and> canvas st' = canvas st \<and> palette st' = palette st
       \<and> current_color st' = current_color st
       \<and> CELLS_X st' = CELLS_X st \<and> CELLS_Y st' = CELLS_Y st
       \<and> CELL_SIZE st' = CELL_SIZE st + 1)"
  by (simp add: key_down_def SDLK_LEFTBRACKET_def SDLK_RIGHTBRACKET_def SDLK_ESCAPE_def
      SDLK_c_def SDLK_g_def SDLK_s_def SDLK_l_def)


theorem cell_size_keys_frame_witness:
  "(\<exists>st'. handle_event example_env (SDL_KEYDOWN SDLK_LEFTBRACKET) example_painted = Some st'
      \<and> canvas st' = Some [0, 0, 0, 1] \<and> current_color st' = 1 \<and> CELL_SIZE st' = 15)
   \<and> (\<exists>st'. handle_event example_env (SDL_KEYDOWN SDLK_RIGHTBRACKET) example_painted = Some st'
      \<and> canvas st' = Some [0, 0, 0, 1] \<and> current_color st' = 1 \<and> CELL_SIZE st' = 17)"
proof -
  have e: "canvas example_painted = Some [0, 0, 0, 1]" "current_color example_painted = 1"
    "CELL_SIZE example_painted = 16"
    by (simp_all add: example_painted_def)
  from cell_size_keys_frame[of example_env example_painted] e show ?thesis by auto
qed

text \<open>
  A remark on the pointer handlers. They divide the window position by \<open>CELL_SIZE\<close> before
  the bounds test, and C's division rounds towards zero: a pointer up to \<open>CELL_SIZE - 1\<close>
  pixels left of or above the canvas is taken for column or row 0.
\<close>

lemma paint_at_pointer_left_of_canvas:
  "paint_at_pointer example_painted (- 5) (- 5)
     = Some (example_painted\<lparr>canvas := Some [1, 0, 0, 1]\<rparr>)"
  by code_simp

section \<open>Invariants of the event loop\<close>

lemma main_init_example: "main_init example_env (Some (2, 2)) = Some example_editor"
  by code_simp

lemma ensure_canvas_allocated_inv:
  assumes "ensure_canvas_allocated env st = Some st'" "canvas_indices_valid st"
  shows "canvas_indices_valid st'" 
    and "current_color st' = current_color st" and "CELLS_X st' = CELLS_X st"
    and "CELLS_Y st' = CELLS_Y st" and "CELL_SIZE st' = CELL_SIZE st" and "palette st' = palette st"
  using assms
  by (auto simp: ensure_canvas_allocated_def canvas_indices_valid_def canvas_cells_def list_all_length valid_index_zero
      bind_eq_Some_conv split: option.splits if_splits)

lemma ensure_canvas_allocated_id:
  "canvas st = Some cv \<Longrightarrow> ensure_canvas_allocated env st = Some st"
  by (simp add: ensure_canvas_allocated_def)

lemma paint_cell_inv:
  assumes "paint_cell st cx cy = Some st'" "editor_inv st"
  shows "editor_inv st'"
proof -
  from assms(2) obtain cv where cv: "canvas st = Some cv" "int (length cv) = CELLS_X st * CELLS_Y st"
      "list_all valid_index cv"
    by (auto simp: editor_inv_def canvas_indices_valid_def canvas_cells_Some elim: grid_okD)
  have cc: "valid_index (word_of_int (current_color st))"
    using assms(2) by (simp add: editor_inv_def current_color_valid_def valid_index_word_of_int)
  from assms(1) consider "st' = st"
    | v where "st' = st\<lparr>canvas := Some (cv[nat (cy * CELLS_X st + cx) := v])\<rparr>" "valid_index v"
    using cv(1) cc valid_index_zero
    by (auto simp: paint_cell_def store_at_def bind_eq_Some_conv c_int_eq_Some split: if_splits)
  then show ?thesis
  proof cases
    case 1 then show ?thesis using assms(2) by simp
  next
    case 2
    then show ?thesis using assms(2) cv
      by (simp add: editor_inv_def grid_ok_def canvas_indices_valid_def canvas_cells_def current_color_valid_def
          list_all_update)
  qed
qed

lemma editor_inv_cong:
  assumes "canvas st' = canvas st" "CELLS_X st' = CELLS_X st" "CELLS_Y st' = CELLS_Y st"
    "current_color st' = current_color st" "CELL_SIZE st' = CELL_SIZE st"
    "palette st' = palette st"
  shows "editor_inv st' = editor_inv st"
  using assms
  by (simp add: editor_inv_def grid_ok_def canvas_indices_valid_def canvas_cells_def current_color_valid_def)

lemma editor_inv_mouse_fields:
  "editor_inv (st\<lparr>mouse_down := d, mouse_button := b\<rparr>) = editor_inv st"
  "editor_inv (st\<lparr>mouse_down := d\<rparr>) = editor_inv st"
  "editor_inv (st\<lparr>running := r\<rparr>) = editor_inv st"
  "editor_inv (st\<lparr>show_grid := g\<rparr>) = editor_inv st"
  by (rule editor_inv_cong; simp)+

lemma paint_at_pointer_inv:
  assumes "paint_at_pointer st mx my = Some st'" "editor_inv st"
  shows "editor_inv st'"
  using assms paint_cell_inv
  by (auto simp: paint_at_pointer_def bind_eq_Some_conv)

lemma editor_inv_current_color:
  "editor_inv st \<Longrightarrow> 0 \<le> n \<Longrightarrow> n < PALETTE_COUNT \<Longrightarrow> editor_inv (st\<lparr>current_color := n\<rparr>)"
  by (simp add: editor_inv_def grid_ok_def canvas_indices_valid_def canvas_cells_def current_color_valid_def)

lemma palette_click_cases:
  assumes "palette_click st mx my = Some st'"
  shows "st' = st \<or> (\<exists>idx. 0 \<le> idx \<and> idx < PALETTE_COUNT \<and> st' = st\<lparr>current_color := idx\<rparr>)"
  using assms unfolding palette_click_def Let_def
  by (auto simp: bind_eq_Some_conv split: if_splits)

lemma palette_click_inv:
  assumes "palette_click st mx my = Some st'" "editor_inv st"
  shows "editor_inv st'"
  using palette_click_cases[OF assms(1)] assms(2) editor_inv_current_color by auto

lemma clear_canvas_inv:
  assumes "clear_canvas env st = Some st'" "editor_inv st"
  shows "editor_inv st'"
proof -
  from assms(2) obtain cv where cv: "canvas st = Some cv" "int (length cv) = CELLS_X st * CELLS_Y st"
      "list_all valid_index cv" and fits: "CELLS_X st * CELLS_Y st \<le> INT32_MAX"
    by (auto simp: editor_inv_def canvas_indices_valid_def canvas_cells_Some elim: grid_okD)
  let ?n = "CELLS_X st * CELLS_Y st"
  have n: "0 \<le> ?n" using cv(2) by (metis of_nat_0_le_iff)
  have "st' = st\<lparr>canvas := Some (replicate (nat ?n) 0 @ drop (nat ?n) cv)\<rparr>"
    using assms(1) cv n fits
    by (simp add: clear_canvas_def ensure_canvas_allocated_def memset_def c_int_nonneg)
  moreover have "list_all valid_index (replicate (nat ?n) 0 @ drop (nat ?n) cv)"
    using cv(3) by (auto simp: list_all_iff valid_index_zero dest: in_set_dropD)
  ultimately show ?thesis using assms(2) cv(2)
    by (simp add: editor_inv_def grid_ok_def canvas_indices_valid_def canvas_cells_def current_color_valid_def)
qed

lemma save_canvas_as_bmp_state:
  assumes "save_canvas_as_bmp env fname st = Some (rc, st')" "canvas st = Some cv"
  shows "st' = st"
  using assms
  by (auto simp: save_canvas_as_bmp_def ensure_canvas_allocated_def bind_eq_Some_conv
      split: if_splits)

lemma load_cell_Some:
  assumes "load_cell st fmt pixels cy cx cv = Some cv'"
  shows "\<exists>k c. store_at cv k (word_of_int (nearest_palette_index (palette st) c)) = Some cv'"
  using assms unfolding load_cell_def Let_def
  by (auto simp: bind_eq_Some_conv)

lemma load_cell_preserves:
  assumes "load_cell st fmt pixels cy cx cv = Some cv'"
  shows "length cv' = length cv" and "list_all valid_index cv \<Longrightarrow> list_all valid_index cv'"
proof -
  from load_cell_Some[OF assms]
  obtain k c where cv': "cv' = cv[k := word_of_int (nearest_palette_index (palette st) c)]"
    by (auto simp: store_at_Some)
  show "length cv' = length cv" using cv' by simp
  have "valid_index (word_of_int (nearest_palette_index (palette st) c))"
    using nearest_palette_index_range[of "palette st" c] by (simp add: valid_index_word_of_int)
  then show "list_all valid_index cv \<Longrightarrow> list_all valid_index cv'"
    using cv' by (simp add: list_all_update)
qed

lemma load_loops_preserve:
  assumes "for_loop 0 h (\<lambda>cy. for_loop 0 w (load_cell st fmt pixels cy)) cv = Some cv'"
  shows "length cv' = length cv \<and> (list_all valid_index cv \<longrightarrow> list_all valid_index cv')"
proof -
  define P where "P = (\<lambda>t. length t = length cv \<and> (list_all valid_index cv \<longrightarrow> list_all valid_index t))"
  have cell: "P u'" if "P u" "load_cell st fmt pixels cy j u = Some u'" for cy j u u'
    using that(1) load_cell_preserves[OF that(2)] unfolding P_def by simp
  have row: "P t'" if "P t" "for_loop 0 w (load_cell st fmt pixels cy) t = Some t'" for cy t t'
    using that(2,1) cell by (rule for_loop_preserves)
  have "P cv" unfolding P_def by simp
  with assms have "P cv'"
    using row by (rule for_loop_preserves)
  then show ?thesis unfolding P_def .
qed

lemma load_bmp_to_canvas_cases:
  assumes "load_bmp_to_canvas env fname st = Some (rc, st')"
  shows "(rc = - 1 \<and> st' = st) \<or>
         (rc = 0 \<and> (\<exists>surf fmt pixels cv cv'.
            SDL_LoadBMP env fname = Some surf \<and> SDL_ConvertSurfaceFormat env surf = Some fmt
            \<and> surf_pixels fmt = Bytes pixels \<and> canvas st = Some cv
            \<and> for_loop 0 (CELLS_Y st)
                 (\<lambda>cy. for_loop 0 (CELLS_X st) (load_cell st fmt pixels cy)) cv = Some cv'
            \<and> st' = st\<lparr>canvas := Some cv'\<rparr>))"
proof (cases "SDL_LoadBMP env fname")
  case None
  then show ?thesis using assms by (simp add: load_bmp_to_canvas_def)
next
  case (Some surf)
  show ?thesis
  proof (cases "SDL_ConvertSurfaceFormat env surf")
    case None
    then show ?thesis using assms Some by (simp add: load_bmp_to_canvas_def)
  next
    case fmt: (Some fmt)
    from assms Some fmt show ?thesis
      by (cases "surf_pixels fmt") (auto simp: load_bmp_to_canvas_def bind_eq_Some_conv)
  qed
qed

lemma load_bmp_to_canvas_inv:
  assumes "load_bmp_to_canvas env fname st = Some (rc, st')" "editor_inv st"
  shows "editor_inv st'"
  using load_bmp_to_canvas_cases[OF assms(1)]
proof (elim disjE conjE exE)
  assume "st' = st"
  then show ?thesis using assms(2) by simp
next
  fix surf fmt pixels cv cv'
  assume l: "canvas st = Some cv"
       "for_loop 0 (CELLS_Y st) (\<lambda>cy. for_loop 0 (CELLS_X st) (load_cell st fmt pixels cy)) cv = Some cv'"
       "st' = st\<lparr>canvas := Some cv'\<rparr>"
  from load_loops_preserve[OF l(2)] show ?thesis
    using assms(2) l(1,3)
    by (simp add: editor_inv_def grid_ok_def canvas_indices_valid_def canvas_cells_def
        current_color_valid_def)
qed

lemma editor_inv_CELL_SIZE:
  "editor_inv st \<Longrightarrow> 4 \<le> s \<Longrightarrow> editor_inv (st\<lparr>CELL_SIZE := s\<rparr>)"
  by (simp add: editor_inv_def grid_ok_def canvas_indices_valid_def canvas_cells_def current_color_valid_def)

lemma key_down_inv:
  assumes kd: "key_down env k st = Some st'" and inv: "editor_inv st"
  shows "editor_inv st'"
proof -
  from inv obtain cv where cv: "canvas st = Some cv"
    by (auto simp: editor_inv_def elim: grid_okD)
  consider (esc) "k = SDLK_ESCAPE" | (c) "k = SDLK_c" | (g) "k = SDLK_g" | (s) "k = SDLK_s"
    | (l) "k = SDLK_l" | (lb) "k = SDLK_LEFTBRACKET" | (rb) "k = SDLK_RIGHTBRACKET"
    | (digit) "k \<noteq> SDLK_ESCAPE" "k \<noteq> SDLK_c" "k \<noteq> SDLK_g" "k \<noteq> SDLK_s" "k \<noteq> SDLK_l"
        "k \<noteq> SDLK_LEFTBRACKET" "k \<noteq> SDLK_RIGHTBRACKET"
    by blast
  then show ?thesis
  proof cases
    case esc
    with kd have "st' = st\<lparr>running := 0\<rparr>" by (simp add: key_down_def)
    then show ?thesis using inv by (simp add: editor_inv_mouse_fields)
  next
    case c
    with kd have "clear_canvas env st = Some st'"
      by (simp add: key_down_def SDLK_c_def SDLK_ESCAPE_def)
    then show ?thesis using inv by (rule clear_canvas_inv)
  next
    case g
    with kd have "st' = st\<lparr>show_grid := (if show_grid st = 0 then 1 else 0)\<rparr>"
      by (simp add: key_down_def SDLK_c_def SDLK_ESCAPE_def SDLK_g_def)
    then show ?thesis using inv by (simp only: editor_inv_mouse_fields)
  next
    case s
    with kd have "st' = st \<or> (\<exists>fname rc. save_canvas_as_bmp env fname st = Some (rc, st'))"
      by (auto simp: key_down_def SDLK_c_def SDLK_ESCAPE_def SDLK_g_def SDLK_s_def Let_def
          split: option.splits if_splits)
    then show ?thesis using inv save_canvas_as_bmp_state[OF _ cv] by auto
  next
    case l
    with kd have "st' = st \<or> (\<exists>fname rc. load_bmp_to_canvas env fname st = Some (rc, st'))"
      by (auto simp: key_down_def SDLK_c_def SDLK_ESCAPE_def SDLK_g_def SDLK_s_def SDLK_l_def
          Let_def split: option.splits if_splits)
    then show ?thesis using inv load_bmp_to_canvas_inv by auto
  next
    case lb
    with kd have "st' = (if CELL_SIZE st > 4 then st\<lparr>CELL_SIZE := CELL_SIZE st - 1\<rparr> else st)"
      by (simp add: key_down_def SDLK_c_def SDLK_ESCAPE_def SDLK_g_def SDLK_s_def SDLK_l_def
          SDLK_LEFTBRACKET_def)
    then show ?thesis using inv by (simp add: editor_inv_CELL_SIZE)
  next
    case rb
    with kd have "st' = st\<lparr>CELL_SIZE := CELL_SIZE st + 1\<rparr>"
      by (simp add: key_down_def SDLK_c_def SDLK_ESCAPE_def SDLK_g_def SDLK_s_def SDLK_l_def
          SDLK_LEFTBRACKET_def SDLK_RIGHTBRACKET_def)
    moreover have "4 \<le> CELL_SIZE st + 1" using inv by (simp add: editor_inv_def)
    ultimately show ?thesis using inv by (simp only: editor_inv_CELL_SIZE)
  next
    case digit
    with kd have "st' = st \<or> (0 \<le> k - SDLK_0 \<and> k - SDLK_0 < PALETTE_COUNT
        \<and> st' = st\<lparr>current_color := k - SDLK_0\<rparr>)"
      by (simp add: key_down_def Let_def split: if_splits)
    then show ?thesis using inv editor_inv_current_color by auto
  qed
qed

lemma handle_event_inv:
  assumes "handle_event env e st = Some st'" "editor_inv st"
  shows "editor_inv st'"
proof (cases e)
  case SDL_QUIT
  then show ?thesis using assms by (auto simp: editor_inv_mouse_fields)
next
  case (SDL_MOUSEBUTTONDOWN button mx my)
  let ?st1 = "st\<lparr>mouse_down := 1, mouse_button := button\<rparr>"
  have "editor_inv ?st1" using assms(2) by (simp add: editor_inv_mouse_fields)
  then show ?thesis
    using assms(1) SDL_MOUSEBUTTONDOWN paint_at_pointer_inv[of ?st1 mx my st']
      palette_click_inv[of ?st1 mx my st']
    by (auto simp: Let_def bind_eq_Some_conv split: if_splits)
next
  case SDL_MOUSEBUTTONUP
  then show ?thesis using assms by (auto simp: editor_inv_mouse_fields)
next
  case (SDL_MOUSEMOTION mx my)
  then show ?thesis using assms paint_at_pointer_inv[of st mx my st']
    by (auto simp: bind_eq_Some_conv split: if_splits)
next
  case (SDL_KEYDOWN k)
  then show ?thesis using assms key_down_inv by simp
next
  case SDL_OTHEREVENT
  then show ?thesis using assms by simp
qed

lemma main_init_inv:
  assumes "main_init env args = Some st"
  shows "editor_inv st \<and> current_color st = 1"
proof -
  define st0 where "st0 = (case args of None \<Rightarrow> initial_globals
      | Some (ax, ay) \<Rightarrow> initial_globals\<lparr>CELLS_X := (if ax \<le> 0 then 32 else ax),
                                    CELLS_Y := (if ay \<le> 0 then 32 else ay)\<rparr>)"
  have pos: "0 < CELLS_X st0" "0 < CELLS_Y st0" and c0: "canvas st0 = None"
    and cs: "CELL_SIZE st0 = 16" "current_color st0 = 1"
    by (auto simp: st0_def initial_globals_def split: option.splits)
  let ?n = "CELLS_X st0 * CELLS_Y st0"
  have n: "0 \<le> ?n" using pos by simp
  from assms obtain st1 where "ensure_canvas_allocated env st0 = Some st1"
    by (auto simp: main_init_def Let_def st0_def[symmetric] bind_eq_Some_conv)
  then have ok: "calloc_ok env" and fits: "?n \<le> INT32_MAX"
    by (auto simp: ensure_canvas_allocated_def c0 bind_eq_Some_conv c_int_eq_Some
        split: if_splits)
  have "Some st = Some (st0\<lparr>canvas := Some (replicate (nat ?n) 0), palette := init_default_palette\<rparr>)"
    unfolding assms[symmetric] using ok n fits
    by (simp add: main_init_def Let_def st0_def[symmetric] ensure_canvas_allocated_def c0
        clear_canvas_def memset_def c_int_nonneg)
  then have "st = st0\<lparr>canvas := Some (replicate (nat ?n) 0), palette := init_default_palette\<rparr>"
    by simp
  then show ?thesis using pos cs n fits
    by (simp add: editor_inv_def grid_ok_def canvas_indices_valid_def canvas_cells_def current_color_valid_def
        list_all_length valid_index_zero PALETTE_COUNT_def)
qed

text \<open>
  Started with \<open>268435457 16\<close> the program multiplies the two dimensions beyond 32 bits
  in the argument of \<open>calloc\<close>: the start has no defined result, and no state of such a run
  is among the reachable ones.
\<close>

lemma main_init_overflow: "main_init example_env (Some (268435457, 16)) = None"
  by code_simp

text \<open>
  With \<open>134217728\<close> columns of 16 pixels the product in the guard of the pointer handlers
  is \<open>2^31\<close>: a click or a drag has no defined result there.
\<close>

lemma handle_event_overflow:
  assumes "CELLS_X st = 134217728" "CELL_SIZE st = 16"
  shows "handle_event env (SDL_MOUSEBUTTONDOWN button mx my) st = None"
    and "mouse_down st \<noteq> 0 \<Longrightarrow> handle_event env (SDL_MOUSEMOTION mx my) st = None"
  using assms by (simp_all add: c_int_def INT32_MAX_def)

lemma reachable_inv: "reachable st \<Longrightarrow> editor_inv st"
proof (induction rule: reachable.induct)
  case (start env args st)
  then show ?case using main_init_inv by blast
next
  case (step st env e st')
  then show ?case using handle_event_inv by blast
qed

lemma example_painted_reachable: "reachable example_painted"
proof -
  have "reachable example_editor"
    using main_init_example by (rule reachable.start)
  moreover have "handle_event example_env (SDL_MOUSEBUTTONDOWN 1 20 20) example_editor
      = Some example_painted"
    by code_simp
  ultimately show ?thesis by (rule reachable.step)
qed

lemma get_cell_valid:
  assumes "canvas_indices_valid st" "get_cell st x y = Some v"
  shows "0 \<le> v \<and> v < PALETTE_COUNT"
proof -
  from assms(2) obtain cv k where cv: "canvas st = Some cv" "0 \<le> k" "k < int (length cv)"
      "v = uint (cv ! nat k)"
    by (auto simp: get_cell_def bind_eq_Some_conv load_at_Some)
  have "list_all valid_index cv" using assms(1) cv(1)
    by (simp add: canvas_indices_valid_def canvas_cells_Some)
  moreover have "nat k < length cv" using cv(2,3) by simp
  ultimately have "valid_index (cv ! nat k)" by (simp add: list_all_length)
  then show ?thesis using cv(4) by (simp add: valid_index_def)
qed

lemma get_cell_defined:
  assumes "grid_ok st" "in_grid st x y"
  shows "\<exists>v. get_cell st x y = Some v"
proof -
  from assms(1) obtain cv where cv: "canvas st = Some cv" "int (length cv) = CELLS_X st * CELLS_Y st"
    by (auto elim: grid_okD)
  from grid_cell_int[OF assms] cv show ?thesis
    by (simp add: get_cell_def load_at_def canvas_cells_Some)
qed

text \<open>
  Claim C6. In every state reachable from the start of \<open>main\<close> by any sequence of events
  (painting, erasing, clearing, loading, palette selection and all others), every cell of
  the canvas holds an index in \<open>[0, PALETTE_COUNT)\<close>: the buffer holds
  \<open>CELLS_X * CELLS_Y\<close> cells, a number that fits an \<open>int\<close>; each cell of the grid has a
  stored index in the range; and whatever a read of the canvas returns is in the range. The
  reachable states are those of runs with a defined result: a start or an event in which an
  \<open>int\<close> product overflows has none (\<open>main_init\<close> and \<open>handle_event\<close> give \<open>None\<close>).
\<close>

theorem reachable_indices_valid:
  assumes "reachable st"
  shows "canvas_indices_valid st
    \<and> canvas st \<noteq> None
    \<and> int (length (canvas_cells st)) = CELLS_X st * CELLS_Y st
    \<and> CELLS_X st * CELLS_Y st \<le> INT32_MAX
    \<and> (\<forall>x y. in_grid st x y \<longrightarrow>
          (\<exists>v. get_cell st x y = Some v \<and> 0 \<le> v \<and> v < PALETTE_COUNT))
    \<and> (\<forall>x y v. get_cell st x y = Some v \<longrightarrow> 0 \<le> v \<and> v < PALETTE_COUNT)"
proof -
  from reachable_inv[OF assms] have v: "canvas_indices_valid st" and g: "grid_ok st"
    by (simp_all add: editor_inv_def)
  from g have "canvas st \<noteq> None" "int (length (canvas_cells st)) = CELLS_X st * CELLS_Y st"
    "CELLS_X st * CELLS_Y st \<le> INT32_MAX"
    by (simp_all add: grid_ok_def)
  then show ?thesis using v g get_cell_valid get_cell_defined by blast
qed

theorem reachable_indices_valid_witness:
  "reachable example_painted \<and> in_grid example_painted 1 1
   \<and> get_cell example_painted 1 1 = Some 1 \<and> (1::int) < PALETTE_COUNT
   \<and> canvas_indices_valid example_painted"
proof -
  have i: "in_grid example_painted 1 1"
    by (simp add: in_grid_def example_painted_def)
  have b: "get_cell example_painted 1 1 = Some 1"
    by code_simp
  from reachable_indices_valid[OF example_painted_reachable] i b
  show ?thesis using example_painted_reachable by auto
qed

lemma paint_cell_current_color:
  "paint_cell st cx cy = Some st' \<Longrightarrow> current_color st' = current_color st"
  by (auto simp: paint_cell_def bind_eq_Some_conv split: if_splits)

lemma paint_at_pointer_current_color:
  "paint_at_pointer st mx my = Some st' \<Longrightarrow> current_color st' = current_color st"
  by (auto simp: paint_at_pointer_def bind_eq_Some_conv dest: paint_cell_current_color)

lemma palette_click_current_color:
  "palette_click st mx my = Some st' \<Longrightarrow>
     current_color st' = current_color st \<or> current_color_valid st'"
  by (auto simp: current_color_valid_def dest: palette_click_cases)

lemma clear_canvas_current_color:
  "clear_canvas env st = Some st' \<Longrightarrow> current_color st' = current_color st"
  by (auto simp: clear_canvas_def ensure_canvas_allocated_def bind_eq_Some_conv
      split: option.splits if_splits)

lemma save_canvas_as_bmp_current_color:
  "save_canvas_as_bmp env fname st = Some (rc, st') \<Longrightarrow> current_color st' = current_color st"
  by (auto simp: save_canvas_as_bmp_def ensure_canvas_allocated_def bind_eq_Some_conv
      split: option.splits if_splits)

lemma load_bmp_to_canvas_current_color:
  "load_bmp_to_canvas env fname st = Some (rc, st') \<Longrightarrow> current_color st' = current_color st"
  using load_bmp_to_canvas_cases[of env fname st rc st'] by auto

lemma key_down_current_color:
  assumes kd: "key_down env k st = Some st'"
  shows "current_color st' = current_color st \<or> current_color_valid st'"
proof -
  consider (esc) "k = SDLK_ESCAPE" | (c) "k = SDLK_c" | (g) "k = SDLK_g" | (s) "k = SDLK_s"
    | (l) "k = SDLK_l" | (lb) "k = SDLK_LEFTBRACKET" | (rb) "k = SDLK_RIGHTBRACKET"
    | (digit) "k \<noteq> SDLK_ESCAPE" "k \<noteq> SDLK_c" "k \<noteq> SDLK_g" "k \<noteq> SDLK_s" "k \<noteq> SDLK_l"
        "k \<noteq> SDLK_LEFTBRACKET" "k \<noteq> SDLK_RIGHTBRACKET"
    by blast
  then show ?thesis
  proof cases
    case esc
    with kd show ?thesis by (auto simp: key_down_def)
  next
    case c
    with kd have "clear_canvas env st = Some st'"
      by (simp add: key_down_def SDLK_c_def SDLK_ESCAPE_def)
    then show ?thesis by (simp add: clear_canvas_current_color)
  next
    case g
    with kd show ?thesis
      by (auto simp: key_down_def SDLK_c_def SDLK_ESCAPE_def SDLK_g_def)
  next
    case s
    with kd have "st' = st \<or> (\<exists>fname rc. save_canvas_as_bmp env fname st = Some (rc, st'))"
      by (auto simp: key_down_def SDLK_c_def SDLK_ESCAPE_def SDLK_g_def SDLK_s_def Let_def
          split: option.splits if_splits)
    then show ?thesis using save_canvas_as_bmp_current_color by auto
  next
    case l
    with kd have "st' = st \<or> (\<exists>fname rc. load_bmp_to_canvas env fname st = Some (rc, st'))"
      by (auto simp: key_down_def SDLK_c_def SDLK_ESCAPE_def SDLK_g_def SDLK_s_def SDLK_l_def
          Let_def split: option.splits if_splits)
    then show ?thesis using load_bmp_to_canvas_current_color by auto
  next
    case lb
    with kd show ?thesis
      by (auto simp: key_down_def SDLK_c_def SDLK_ESCAPE_def SDLK_g_def SDLK_s_def SDLK_l_def
          SDLK_LEFTBRACKET_def split: if_splits)
  next
    case rb
    with kd show ?thesis
      by (auto simp: key_down_def SDLK_c_def SDLK_ESCAPE_def SDLK_g_def SDLK_s_def SDLK_l_def
          SDLK_LEFTBRACKET_def SDLK_RIGHTBRACKET_def)
  next
    case digit
    with kd have "st' = st \<or> (0 \<le> k - SDLK_0 \<and> k - SDLK_0 < PALETTE_COUNT
        \<and> st' = st\<lparr>current_color := k - SDLK_0\<rparr>)"
      by (simp add: key_down_def Let_def split: if_splits)
    then show ?thesis by (auto simp: current_color_valid_def)
  qed
qed

lemma handle_event_current_color:
  assumes "handle_event env e st = Some st'"
  shows "current_color st' = current_color st \<or> current_color_valid st'"
proof (cases e)
  case (SDL_MOUSEBUTTONDOWN button mx my)
  let ?st1 = "st\<lparr>mouse_down := 1, mouse_button := button\<rparr>"
  from assms SDL_MOUSEBUTTONDOWN
  have "paint_at_pointer ?st1 mx my = Some st' \<or> palette_click ?st1 mx my = Some st'"
    by (auto simp: Let_def bind_eq_Some_conv split: if_splits)
  then show ?thesis
    using paint_at_pointer_current_color[of ?st1 mx my st']
      palette_click_current_color[of ?st1 mx my st'] by auto
next
  case (SDL_MOUSEMOTION mx my)
  then show ?thesis using assms paint_at_pointer_current_color[of st mx my st']
    by (auto simp: bind_eq_Some_conv split: if_splits)
next
  case (SDL_KEYDOWN k)
  then show ?thesis using assms key_down_current_color by simp
qed (use assms in auto)

text \<open>
  Claim C10. In every reachable state \<open>current_color\<close> is in \<open>[0, PALETTE_COUNT)\<close>: it
  starts as \<open>1\<close>, and whatever an event does, \<open>current_color\<close> is afterwards either
  what it was or a value in that range (the number keys and the palette click assign only
  behind their range test).
\<close>

theorem reachable_current_color_valid:
  assumes "reachable st"
  shows "0 \<le> current_color st \<and> current_color st < PALETTE_COUNT
    \<and> (\<forall>env args st0. main_init env args = Some st0 \<longrightarrow> current_color st0 = 1)
    \<and> (\<forall>env e st'. handle_event env e st = Some st' \<longrightarrow>
          current_color st' = current_color st
          \<or> (0 \<le> current_color st' \<and> current_color st' < PALETTE_COUNT))"
proof -
  have "current_color_valid st" using reachable_inv[OF assms] by (simp add: editor_inv_def)
  then show ?thesis
    using main_init_inv handle_event_current_color
    unfolding current_color_valid_def by blast
qed

theorem reachable_current_color_valid_witness:
  "reachable example_painted \<and> current_color example_painted = 1
   \<and> (\<exists>st'. handle_event example_env (SDL_KEYDOWN 53) example_painted = Some st'
         \<and> current_color st' = 5 \<and> reachable st')
   \<and> (0::int) \<le> 5 \<and> 5 < PALETTE_COUNT"
proof -
  define st' where "st' = example_painted\<lparr>current_color := 5\<rparr>"
  have k: "handle_event example_env (SDL_KEYDOWN 53) example_painted = Some st'"
    unfolding st'_def by code_simp
  have r: "reachable st'"
    using example_painted_reachable k by (rule reachable.step)
  have c: "current_color st' = 5" by (simp add: st'_def)
  from reachable_current_color_valid[OF r] c have "(0::int) \<le> 5 \<and> 5 < PALETTE_COUNT" by simp
  moreover have "current_color example_painted = 1" by (simp add: example_painted_def)
  ultimately show ?thesis using example_painted_reachable k r c by blast
qed

section \<open>Rounding error of the sample coordinate\<close>

text \<open>
  Rounding to binary64 changes a positive value by at most one part in \<open>2^53\<close>. The sample
  coordinate is the result of three rounded operations, so it stays within one part in
  \<open>2^51\<close> of the exact value, far less than the half cell that separates the exact sample
  point of an exported image from the neighbouring cells.
\<close>

lemma rne_error: "\<bar>of_int (rne y) - y\<bar> \<le> 1 / 2"
proof -
  define f where "f = \<lfloor>y\<rfloor>"
  define d where "d = y - of_int f"
  have d: "0 \<le> d" "d < 1" unfolding d_def f_def by linarith+
  have y: "y = of_int f + d" by (simp add: d_def)
  have r: "rne y = (if d < 1/2 then f else if 1/2 < d then f + 1
                    else if even f then f else f + 1)"
    unfolding rne_def Let_def d_def f_def ..
  have yd: "y - of_int f = d" by (simp add: d_def)
  consider "d < 1/2" | "1/2 < d" | "d = 1/2" by linarith
  then show ?thesis
  proof cases
    case 1
    then have "rne y = f" by (simp only: r if_True)
    then show ?thesis using d 1 yd by (auto simp: abs_if)
  next
    case 2
    then have "rne y = f + 1" using r by simp
    then show ?thesis using d 2 yd by (auto simp: abs_if)
  next
    case 3
    then have "rne y = f \<or> rne y = f + 1" using r by simp
    then show ?thesis
    proof
      assume "rne y = f"
      then show ?thesis using 3 yd by (auto simp: abs_if)
    next
      assume "rne y = f + 1"
      then show ?thesis using 3 yd by (auto simp: abs_if)
    qed
  qed
qed

lemma two_powi_nat: "0 \<le> k \<Longrightarrow> (2::rat) powi k = 2 ^ nat k"
  by (simp add: power_int_def)

lemma bitlen_rat_bounds:
  assumes "0 < p"
  shows "(2::rat) powi (bitlen p - 1) \<le> of_int p" and "of_int p < (2::rat) powi (bitlen p)"
proof -
  have b: "1 \<le> bitlen p" using assms by (simp add: bitlen_alt_def)
  from bitlen_bounds[OF assms] have i: "2 ^ nat (bitlen p - 1) \<le> p" "p < 2 ^ nat (bitlen p)"
    by simp_all
  have "(of_int (2 ^ nat (bitlen p - 1)) :: rat) \<le> of_int p" using i(1) by (simp only: of_int_le_iff)
  then show "(2::rat) powi (bitlen p - 1) \<le> of_int p" using b by (simp add: two_powi_nat)
  have "(of_int p :: rat) < of_int (2 ^ nat (bitlen p))" using i(2) by (simp only: of_int_less_iff)
  then show "of_int p < (2::rat) powi (bitlen p)" using b by (simp add: two_powi_nat)
qed

lemma binade_bounds:
  assumes "0 < x"
  shows "2 powi (binade x) \<le> x" and "x < 2 powi (binade x + 1)"
proof -
  obtain p q where pq: "quotient_of x = (p, q)" by (cases "quotient_of x")
  have q: "0 < q" using quotient_of_denom_pos[OF pq] .
  have x: "x = of_int p / of_int q" using quotient_of_div[OF pq] .
  have p: "0 < p" using assms q x by (simp add: zero_less_divide_iff)
  let ?d = "bitlen p - bitlen q"
  have Q: "(0::rat) < of_int q" using q by simp
  have up: "x < 2 powi (?d + 1)"
  proof -
    have "x < 2 powi (bitlen p) / of_int q"
      unfolding x using bitlen_rat_bounds(2)[OF p] Q by (simp add: divide_strict_right_mono)
    also have "\<dots> \<le> 2 powi (bitlen p) / 2 powi (bitlen q - 1)"
    proof (rule divide_left_mono)
      show "2 powi (bitlen q - 1) \<le> rat_of_int q" using bitlen_rat_bounds(1)[OF q] .
      show "(0::rat) \<le> 2 powi bitlen p" by simp
      show "0 < rat_of_int q * 2 powi (bitlen q - 1)" using Q by simp
    qed
    also have "\<dots> = 2 powi (bitlen p - (bitlen q - 1))" by (simp add: power_int_diff)
    finally show ?thesis by (simp add: algebra_simps)
  qed
  have lo: "2 powi (?d - 1) \<le> x"
  proof -
    have "(2::rat) powi (?d - 1) = 2 powi (bitlen p - 1) / 2 powi (bitlen q)"
      by (simp add: power_int_diff[symmetric] algebra_simps)
    also have "\<dots> \<le> of_int p / 2 powi (bitlen q)"
      using bitlen_rat_bounds(1)[OF p] by (simp add: divide_right_mono)
    also have "\<dots> \<le> of_int p / of_int q"
    proof (rule divide_left_mono)
      show "rat_of_int q \<le> 2 powi bitlen q" using bitlen_rat_bounds(2)[OF q] by simp
      show "(0::rat) \<le> of_int p" using p by simp
      show "0 < 2 powi bitlen q * rat_of_int q" using Q by simp
    qed
    finally show ?thesis by (simp add: x)
  qed
  show "2 powi (binade x) \<le> x" using lo by (simp add: binade_def pq Let_def)
  show "x < 2 powi (binade x + 1)" using up lo by (auto simp: binade_def pq Let_def not_le)
qed

lemma round_double_error:
  assumes "0 < x"
  shows "\<bar>round_double x - x\<bar> \<le> x / 2 ^ 53"
proof -
  let ?e = "binade x"
  let ?u = "(2::rat) powi (?e - 52)"
  have u: "0 < ?u" by simp
  have r: "round_double x = of_int (rne (x / ?u)) * ?u"
    using assms by (simp add: round_double_def Let_def)
  have "\<bar>round_double x - x\<bar> = \<bar>of_int (rne (x / ?u)) - x / ?u\<bar> * ?u"
  proof -
    have "round_double x - x = (of_int (rne (x / ?u)) - x / ?u) * ?u"
      using u by (simp add: r field_simps)
    then show ?thesis using u by (simp add: abs_mult)
  qed
  also have "\<dots> \<le> (1 / 2) * ?u"
    using rne_error[of "x / ?u"] u by (intro mult_right_mono) simp_all
  also have "\<dots> = 2 powi ?e / 2 ^ 53"
  proof -
    have "?u = 2 powi ?e / 2 powi 52" by (simp add: power_int_diff)
    then show ?thesis by simp
  qed
  also have "\<dots> \<le> x / 2 ^ 53"
    using binade_bounds(1)[OF assms] by (simp add: divide_right_mono)
  finally show ?thesis .
qed

lemma round_double_bounds:
  assumes "0 < x"
  shows "x * (1 - 1 / 2 ^ 53) \<le> round_double x" and "round_double x \<le> x * (1 + 1 / 2 ^ 53)"
proof -
  define c :: rat where "c = x / 2 ^ 53"
  have e: "\<bar>round_double x - x\<bar> \<le> c" using round_double_error[OF assms] by (simp add: c_def)
  have 1: "x * (1 - 1 / 2 ^ 53) = x - c" by (simp add: c_def right_diff_distrib)
  have 2: "x * (1 + 1 / 2 ^ 53) = x + c" by (simp add: c_def distrib_left)
  show "x * (1 - 1 / 2 ^ 53) \<le> round_double x" unfolding 1 using e by linarith
  show "round_double x \<le> x * (1 + 1 / 2 ^ 53)" unfolding 2 using e by linarith
qed

lemma sample_value_bounds:
  assumes c: "0 \<le> c" and n: "0 < n" and img: "0 < img"
  defines "X \<equiv> (of_int c + 1/2) * of_int img / (of_int n :: rat)"
  defines "V \<equiv> fmul (fdiv (fadd (double_of_int c) (1/2)) (double_of_int n)) (double_of_int img)"
  shows "X * (1 - 1 / 2 ^ 53) ^ 3 \<le> V" and "V \<le> X * (1 + 1 / 2 ^ 53) ^ 3"
proof -
  define F :: rat where "F = 1 - 1 / 2 ^ 53"
  define E :: rat where "E = 1 + 1 / 2 ^ 53"
  have F: "0 < F" and E: "0 < E" by (simp_all add: F_def E_def)
  define t :: rat where "t = of_int c + 1/2"
  define N :: rat where "N = of_int n"
  define M :: rat where "M = of_int img"
  have t: "0 < t" and N: "0 < N" and M: "0 < M" using c n img by (simp_all add: t_def N_def M_def)
  define a where "a = round_double t"
  have a: "t * F \<le> a" "a \<le> t * E"
    using round_double_bounds[OF t] by (simp_all add: a_def F_def E_def)
  have a0: "0 < a" using a(1) t F by (meson less_le_trans mult_pos_pos)
  define q where "q = round_double (a / N)"
  have aN: "0 < a / N" using a0 N by simp
  have q: "a / N * F \<le> q" "q \<le> a / N * E"
    using round_double_bounds[OF aN] by (simp_all add: q_def F_def E_def)
  have q0: "0 < q" using q(1) aN F by (meson less_le_trans mult_pos_pos)
  have qM: "0 < q * M" using q0 M by simp
  have V: "V = round_double (q * M)"
    by (simp add: V_def fmul_def fdiv_def fadd_def double_of_int_def q_def a_def t_def N_def M_def)
  have v: "q * M * F \<le> V" "V \<le> q * M * E"
    using round_double_bounds[OF qM] by (simp_all add: V F_def E_def)
  have X: "X = t * M / N" by (simp add: X_def t_def N_def M_def)
  have "X * F ^ 3 = (t * F) / N * F * M * F"
    by (simp add: X power3_eq_cube)
  also have "\<dots> \<le> a / N * F * M * F"
    using a(1) N F M by (intro mult_right_mono divide_right_mono) simp_all
  also have "\<dots> \<le> q * M * F"
    using q(1) F M by (intro mult_right_mono) simp_all
  also have "\<dots> \<le> V" by (rule v(1))
  finally show "X * (1 - 1 / 2 ^ 53) ^ 3 \<le> V" by (simp add: F_def)
  have "V \<le> q * M * E" by (rule v(2))
  also have "\<dots> \<le> a / N * E * M * E"
    using q(2) E M by (intro mult_right_mono) simp_all
  also have "\<dots> \<le> (t * E) / N * E * M * E"
    using a(2) N E M by (intro mult_right_mono divide_right_mono) simp_all
  also have "\<dots> = X * E ^ 3" by (simp add: X power3_eq_cube)
  finally show "V \<le> X * (1 + 1 / 2 ^ 53) ^ 3" by (simp add: E_def)
qed

lemma cube_error_bounds:
  "1 - 1 / 2 ^ 51 \<le> ((1::rat) - 1 / 2 ^ 53) ^ 3" "((1::rat) + 1 / 2 ^ 53) ^ 3 \<le> 1 + 1 / 2 ^ 51"
  by (simp_all add: power3_eq_cube)

lemma sample_in_cell:
  assumes c: "0 \<le> c" "c < n" and s: "0 < s" and n: "n \<le> 2 ^ 31"
  shows "c * s \<le> sample_coord c n (n * s)" and "sample_coord c n (n * s) < (c + 1) * s"
proof -
  define V where "V = fmul (fdiv (fadd (double_of_int c) (1/2)) (double_of_int n)) (double_of_int (n * s))"
  define X :: rat where "X = (of_int c + 1/2) * of_int s"
  have n0: "0 < n" using c by simp
  have img: "0 < n * s" using n0 s by simp
  have Xeq: "(of_int c + 1/2) * of_int (n * s) / (of_int n :: rat) = X"
    using n0 by (simp add: X_def)
  from sample_value_bounds[OF c(1) n0 img]
  have b: "X * (1 - 1 / 2 ^ 53) ^ 3 \<le> V" "V \<le> X * (1 + 1 / 2 ^ 53) ^ 3"
    unfolding Xeq V_def by simp_all
  have X0: "0 < X" using c(1) s by (simp add: X_def)
  have S: "(0::rat) < of_int s" using s by simp
  have cb: "(of_int c :: rat) + 1/2 \<le> 2 ^ 31"
  proof -
    have "c + 1 \<le> 2 ^ 31" using c(2) n by simp
    then have "(of_int (c + 1) :: rat) \<le> of_int (2 ^ 31)" by (simp only: of_int_le_iff)
    then show ?thesis by simp
  qed
  have lo: "of_int (c * s) \<le> V"
  proof -
    have "of_int (c * s) = (of_int c :: rat) * of_int s" by simp
    also have "\<dots> \<le> ((of_int c + 1/2) * (1 - 1 / 2 ^ 51)) * of_int s"
    proof (rule mult_right_mono)
      have "(of_int c + 1/2) * (1 / 2 ^ 51) \<le> (2 ^ 31 :: rat) * (1 / 2 ^ 51)"
        using cb by (intro mult_right_mono) simp_all
      then show "(of_int c :: rat) \<le> (of_int c + 1/2) * (1 - 1 / 2 ^ 51)"
        by (simp add: algebra_simps)
      show "(0::rat) \<le> of_int s" using s by simp
    qed
    also have "\<dots> = X * (1 - 1 / 2 ^ 51)" by (simp add: X_def algebra_simps)
    also have "\<dots> \<le> X * (1 - 1 / 2 ^ 53) ^ 3"
      using cube_error_bounds(1) X0 by (intro mult_left_mono) simp_all
    also have "\<dots> \<le> V" by (rule b(1))
    finally show ?thesis .
  qed
  have hi: "V < of_int ((c + 1) * s)"
  proof -
    have "V \<le> X * (1 + 1 / 2 ^ 53) ^ 3" by (rule b(2))
    also have "\<dots> \<le> X * (1 + 1 / 2 ^ 51)"
      using cube_error_bounds(2) X0 by (intro mult_left_mono) simp_all
    also have "\<dots> = ((of_int c + 1/2) * (1 + 1 / 2 ^ 51)) * of_int s"
      by (simp add: X_def algebra_simps)
    also have "\<dots> < (of_int c + 1) * of_int s"
    proof (rule mult_strict_right_mono)
      have "(of_int c + 1/2) * (1 / 2 ^ 51) \<le> (2 ^ 31 :: rat) * (1 / 2 ^ 51)"
        using cb by (intro mult_right_mono) simp_all
      then show "((of_int c :: rat) + 1/2) * (1 + 1 / 2 ^ 51) < of_int c + 1"
        by (simp add: algebra_simps)
      show "(0::rat) < of_int s" by (rule S)
    qed
    also have "\<dots> = of_int ((c + 1) * s)" by simp
    finally show ?thesis .
  qed
  have V0: "0 \<le> V"
  proof -
    have "(0::rat) \<le> of_int (c * s)" using c(1) s by simp
    then show ?thesis using lo by linarith
  qed
  have sc: "sample_coord c n (n * s) = \<lfloor>V\<rfloor>"
    using V0 by (simp add: sample_coord_def int_of_double_def V_def)
  show "c * s \<le> sample_coord c n (n * s)" unfolding sc using lo by (simp add: le_floor_iff)
  show "sample_coord c n (n * s) < (c + 1) * s" unfolding sc using hi by (simp add: floor_less_iff)
qed

text \<open>
  For a cell of the grid and an image of at most \<open>2^31\<close> pixels a side, the double before
  the cast is within \<open>2^-20\<close> of the exact value \<open>(c + 0.5) / n * img\<close> and below \<open>img\<close>:
  the sample coordinate is a pixel of the image, and it is the floor of the exact value
  unless that value lies within \<open>2^-20\<close> of an integer.
\<close>

lemma sample_coord_bounds:
  assumes c: "0 \<le> c" "c < n" and n: "n \<le> 2 ^ 31" and img: "0 < img" "img \<le> 2 ^ 31"
  defines "X \<equiv> (of_int c + 1/2) / of_int n * (of_int img :: rat)"
  shows "0 \<le> sample_coord c n img" and "sample_coord c n img < img"
    and "\<lfloor>X - 1 / 2 ^ 20\<rfloor> \<le> sample_coord c n img"
    and "sample_coord c n img \<le> \<lfloor>X + 1 / 2 ^ 20\<rfloor>"
proof -
  define V where "V = fmul (fdiv (fadd (double_of_int c) (1/2)) (double_of_int n)) (double_of_int img)"
  define t :: rat where "t = of_int c + 1/2"
  define N :: rat where "N = of_int n"
  define M :: rat where "M = of_int img"
  have n0: "0 < n" using c by simp
  have N: "0 < N" using n0 by (simp add: N_def)
  have M: "0 < M" using img by (simp add: M_def)
  have M31: "M \<le> 2 ^ 31"
  proof -
    have "(of_int img :: rat) \<le> of_int (2 ^ 31)" using img(2) by (simp only: of_int_le_iff)
    then show ?thesis by (simp add: M_def)
  qed
  have t0: "0 < t" using c by (simp add: t_def)
  have tN: "t + 1/2 \<le> N"
  proof -
    have "c + 1 \<le> n" using c by simp
    then have "(of_int (c + 1) :: rat) \<le> of_int n" by (simp only: of_int_le_iff)
    then show ?thesis by (simp add: t_def N_def)
  qed
  have t31: "t \<le> 2 ^ 31"
  proof -
    have "(of_int n :: rat) \<le> of_int (2 ^ 31)" using n by (simp only: of_int_le_iff)
    then have "N \<le> 2 ^ 31" by (simp add: N_def)
    then show ?thesis using tN by linarith
  qed
  have X: "X = t / N * M" by (simp add: X_def t_def N_def M_def)
  have Xeq: "(of_int c + 1/2) * of_int img / (of_int n :: rat) = X"
    by (simp add: X_def)
  from sample_value_bounds[OF c(1) n0 img(1)]
  have b: "X * (1 - 1 / 2 ^ 53) ^ 3 \<le> V" "V \<le> X * (1 + 1 / 2 ^ 53) ^ 3"
    unfolding Xeq V_def by simp_all
  have X0: "0 < X" using t0 N M by (simp add: X)
  have tN1: "t / N \<le> 1" using tN N by simp
  have XM: "X \<le> M" 
  proof -
    have "t / N * M \<le> 1 * M" using tN1 M by (intro mult_right_mono) simp_all
    then show ?thesis by (simp add: X)
  qed
  have X31: "X \<le> 2 ^ 31" using XM M31 by linarith
  have err: "X * (1 / 2 ^ 51) \<le> 1 / 2 ^ 20"
  proof -
    have "X * (1 / 2 ^ 51) \<le> 2 ^ 31 * (1 / 2 ^ 51)"
      using X31 by (intro mult_right_mono) simp_all
    then show ?thesis by simp
  qed
  have lo: "X - 1 / 2 ^ 20 \<le> V"
  proof -
    have "X - 1 / 2 ^ 20 \<le> X * (1 - 1 / 2 ^ 51)" using err by (simp add: algebra_simps)
    also have "\<dots> \<le> X * (1 - 1 / 2 ^ 53) ^ 3"
      using cube_error_bounds(1) X0 by (intro mult_left_mono) simp_all
    also have "\<dots> \<le> V" by (rule b(1))
    finally show ?thesis .
  qed
  have up: "V \<le> X * (1 + 1 / 2 ^ 51)"
  proof -
    have "V \<le> X * (1 + 1 / 2 ^ 53) ^ 3" by (rule b(2))
    also have "\<dots> \<le> X * (1 + 1 / 2 ^ 51)"
      using cube_error_bounds(2) X0 by (intro mult_left_mono) simp_all
    finally show ?thesis .
  qed
  have hi: "V \<le> X + 1 / 2 ^ 20" using up err by (simp add: algebra_simps)
  have lt: "V < M"
  proof -
    have "t * (1 / 2 ^ 51) \<le> 2 ^ 31 * (1 / 2 ^ 51)"
      using t31 by (intro mult_right_mono) simp_all
    then have "t * (1 + 1 / 2 ^ 51) < t + 1/2" by (simp add: algebra_simps)
    then have "t * (1 + 1 / 2 ^ 51) < N" using tN by linarith
    then have "t * (1 + 1 / 2 ^ 51) / N < 1" using N by simp
    then have A: "t * (1 + 1 / 2 ^ 51) / N * M < 1 * M" using M by (intro mult_strict_right_mono)
    have B: "X * (1 + 1 / 2 ^ 51) = t * (1 + 1 / 2 ^ 51) / N * M" by (simp add: X)
    from A have "X * (1 + 1 / 2 ^ 51) < 1 * M" by (simp only: B)
    then have "X * (1 + 1 / 2 ^ 51) < M" by (simp only: mult_1)
    then show ?thesis using up by linarith
  qed
  have V0: "0 \<le> V"
  proof -
    have "0 \<le> X * (1 - 1 / 2 ^ 53) ^ 3" using X0 by simp
    then show ?thesis using b(1) by linarith
  qed
  have sc: "sample_coord c n img = \<lfloor>V\<rfloor>"
    using V0 by (simp add: sample_coord_def int_of_double_def V_def)
  show "0 \<le> sample_coord c n img" unfolding sc using V0 by simp
  show "sample_coord c n img < img" unfolding sc using lt by (simp add: floor_less_iff M_def)
  show "\<lfloor>X - 1 / 2 ^ 20\<rfloor> \<le> sample_coord c n img" unfolding sc using lo by (rule floor_mono)
  show "sample_coord c n img \<le> \<lfloor>X + 1 / 2 ^ 20\<rfloor>" unfolding sc using hi by (rule floor_mono)
qed

section \<open>Export and import\<close>

lemma div_in_grid:
  fixes x s w :: int
  assumes "0 \<le> x" "0 < s" "x < w * s"
  shows "0 \<le> x div s" and "x div s < w"
proof -
  show "0 \<le> x div s" using assms by (simp add: pos_imp_zdiv_nonneg_iff)
  have "s * (x div s) + x mod s = x" by simp
  moreover have "0 \<le> x mod s" using assms(2) by simp
  ultimately have "s * (x div s) \<le> x" by linarith
  with assms(3) have "(x div s) * s < w * s" by (simp add: mult.commute)
  then show "x div s < w" using assms(2) by (simp add: mult_less_cancel_right)
qed

lemma grid_ok_sizes:
  assumes "grid_ok st"
  shows "CELLS_X st \<le> 2 ^ 31" and "CELLS_Y st \<le> 2 ^ 31"
proof -
  from assms have pos: "0 < CELLS_X st" "0 < CELLS_Y st"
    and fits: "CELLS_X st * CELLS_Y st \<le> INT32_MAX"
    by (auto elim: grid_okD)
  have "CELLS_X st * 1 \<le> CELLS_X st * CELLS_Y st" using pos by (intro mult_left_mono) simp_all
  then show "CELLS_X st \<le> 2 ^ 31" using fits by (simp add: INT32_MAX_def)
  have "1 * CELLS_Y st \<le> CELLS_X st * CELLS_Y st" using pos by (intro mult_right_mono) simp_all
  then show "CELLS_Y st \<le> 2 ^ 31" using fits by (simp add: INT32_MAX_def)
qed

lemma export_ok_sizes:
  assumes "export_ok st"
  shows "0 < CELLS_X st * CELL_SIZE st" and "0 < CELLS_Y st * CELL_SIZE st"
    and "(CELLS_X st * CELL_SIZE st) * (CELLS_Y st * CELL_SIZE st) \<le> INT32_MAX"
    and "CELLS_X st * CELL_SIZE st \<le> INT32_MAX" and "CELLS_Y st * CELL_SIZE st \<le> INT32_MAX"
    and "CELLS_X st * CELL_SIZE st * 4 \<le> INT32_MAX"
proof -
  define w where "w = CELLS_X st * CELL_SIZE st"
  define h where "h = CELLS_Y st * CELL_SIZE st"
  from assms have pos: "0 < CELLS_X st" "0 < CELLS_Y st" "0 < CELL_SIZE st"
    and B: "4 * w * h \<le> INT32_MAX"
    by (auto simp: export_ok_def w_def h_def elim: grid_okD)
  have w: "0 < w" and h: "0 < h" using pos by (simp_all add: w_def h_def)
  have 1: "w * 1 \<le> w * h" using w h by (intro mult_left_mono) simp_all
  have 2: "1 * h \<le> w * h" using w h by (intro mult_right_mono) simp_all
  have 3: "4 * w * h = 4 * (w * h)" by simp
  have 4: "0 < w * h" using w h by simp
  have "0 < w" "0 < h" "w * h \<le> INT32_MAX" "w \<le> INT32_MAX" "h \<le> INT32_MAX" "w * 4 \<le> INT32_MAX"
    using w h 1 2 4 B unfolding 3 by linarith+
  then show "0 < CELLS_X st * CELL_SIZE st" and "0 < CELLS_Y st * CELL_SIZE st"
    and "(CELLS_X st * CELL_SIZE st) * (CELLS_Y st * CELL_SIZE st) \<le> INT32_MAX"
    and "CELLS_X st * CELL_SIZE st \<le> INT32_MAX" and "CELLS_Y st * CELL_SIZE st \<le> INT32_MAX"
    and "CELLS_X st * CELL_SIZE st * 4 \<le> INT32_MAX"
    by (simp_all add: w_def h_def)
qed

lemma save_pixel_value:
  assumes ok: "export_ok st" and cv: "canvas st = Some cv"
    and x: "0 \<le> x" "x < CELLS_X st * CELL_SIZE st"
    and y: "0 \<le> y" "y < CELLS_Y st * CELL_SIZE st"
    and len: "int (length pixels) = (CELLS_X st * CELL_SIZE st) * (CELLS_Y st * CELL_SIZE st)"
  shows "save_pixel st cv (CELLS_X st * CELL_SIZE st) y x pixels =
           Some (pixels[nat (y * (CELLS_X st * CELL_SIZE st) + x) :=
                   pack_pixel (cell_color st (x div CELL_SIZE st) (y div CELL_SIZE st))])"
proof -
  let ?S = "CELL_SIZE st" and ?W = "CELLS_X st" and ?H = "CELLS_Y st"
  have S: "0 < ?S" and g: "grid_ok st" and valid: "list_all valid_index cv"
    and pal: "int (length (palette st)) = PALETTE_COUNT"
    using ok cv by (simp_all add: export_ok_def canvas_indices_valid_def canvas_cells_Some)
  have cvlen: "int (length cv) = ?W * ?H" and fits: "?W * ?H \<le> INT32_MAX"
    using g cv by (auto elim: grid_okD)
  have cx: "0 \<le> x div ?S" "x div ?S < ?W" using div_in_grid[OF x(1) S x(2)] by simp_all
  have cy: "0 \<le> y div ?S" "y div ?S < ?H" using div_in_grid[OF y(1) S y(2)] by simp_all
  let ?k = "(y div ?S) * ?W + x div ?S"
  have k: "0 \<le> ?k" "?k < int (length cv)"
    using cell_index_bounds[OF cx cy] cvlen by simp_all
  then have "valid_index (cv ! nat ?k)" using valid by (simp add: list_all_length)
  then have ci: "0 \<le> uint (cv ! nat ?k)" "uint (cv ! nat ?k) < int (length (palette st))"
    using pal by (simp_all add: valid_index_def)
  let ?p = "y * (?W * ?S) + x"
  have p: "0 \<le> ?p" "?p < int (length pixels)"
    using cell_index_bounds[OF x y] len by simp_all
  have xm: "x \<le> INT32_MAX" and ym: "y \<le> INT32_MAX"
    using x(2) y(2) export_ok_sizes(4,5)[OF ok] by linarith+
  note dx = c_div_nonneg[OF x(1) xm S] and dy = c_div_nonneg[OF y(1) ym S]
  note ik = cell_index_int[OF cx cy fits]
  note ip = cell_index_int[OF x y export_ok_sizes(3)[OF ok]]
  show ?thesis
    using k ci p
    by (simp add: save_pixel_def dx dy ik ip load_at_def store_at_def cell_color_def
        canvas_cells_Some[OF cv])
qed

lemma save_pixels_cells:
  assumes ok: "export_ok st"
  shows "\<exists>pixels. save_pixels st = Some pixels
    \<and> int (length pixels) = (CELLS_X st * CELL_SIZE st) * (CELLS_Y st * CELL_SIZE st)
    \<and> (\<forall>x y. 0 \<le> x \<and> x < CELLS_X st * CELL_SIZE st \<and> 0 \<le> y \<and> y < CELLS_Y st * CELL_SIZE st
          \<longrightarrow> pixels ! nat (y * (CELLS_X st * CELL_SIZE st) + x)
                = pack_pixel (cell_color st (x div CELL_SIZE st) (y div CELL_SIZE st)))"
proof -
  let ?w = "CELLS_X st * CELL_SIZE st" and ?h = "CELLS_Y st * CELL_SIZE st"
  from ok obtain cv where cv: "canvas st = Some cv" and pos: "0 < CELLS_X st" "0 < CELLS_Y st"
    by (auto simp: export_ok_def elim: grid_okD)
  have S: "0 < CELL_SIZE st" using ok by (simp add: export_ok_def)
  have w: "0 \<le> ?w" and h: "0 \<le> ?h" using pos S by simp_all
  have len0: "int (length (replicate (nat (?w * ?h)) (0::uint32))) = ?w * ?h"
    using w h by simp
  have "\<exists>t. for_loop 0 ?h (\<lambda>y. for_loop 0 ?w (save_pixel st cv ?w y))
                (replicate (nat (?w * ?h)) 0) = Some t
          \<and> int (length t) = ?w * ?h
          \<and> (\<forall>x y. 0 \<le> x \<and> x < ?w \<and> 0 \<le> y \<and> y < ?h \<longrightarrow>
                t ! nat (y * ?w + x)
                  = pack_pixel (cell_color st (x div CELL_SIZE st) (y div CELL_SIZE st)))"
    using w h len0
  proof (rule fill_rows)
    fix x y and t :: "uint32 list"
    assume "0 \<le> x" "x < ?w" "0 \<le> y" "y < ?h" "int (length t) = ?w * ?h"
    then show "save_pixel st cv ?w y x t =
       Some (t[nat (y * ?w + x) := pack_pixel (cell_color st (x div CELL_SIZE st) (y div CELL_SIZE st))])"
      using save_pixel_value[OF ok cv] by simp
  qed
  moreover have "c_int ?w = Some ?w" "c_int ?h = Some ?h"
    using w h export_ok_sizes(4,5)[OF ok] by (simp_all add: c_int_nonneg)
  ultimately show ?thesis using cv by (simp add: save_pixels_def)
qed

lemma example_painted_export_ok: "export_ok example_painted"
  using grid_ok_examples(1)
  by (simp add: export_ok_def canvas_indices_valid_def canvas_cells_def
      example_painted_def valid_index_def PALETTE_COUNT_def init_default_palette_def INT32_MAX_def)

lemma clamp_coord_range:
  "0 < img \<Longrightarrow> 0 \<le> clamp_coord s img \<and> clamp_coord s img < img"
  by (simp add: clamp_coord_def Let_def)

lemma clamp_coord_id: "0 \<le> s \<Longrightarrow> s < img \<Longrightarrow> clamp_coord s img = s"
  by (simp add: clamp_coord_def Let_def)

lemma rgb24_offsets:
  assumes ok: "rgb24_ok fmt pixels" and x: "0 \<le> x" "x < surf_w fmt" and y: "0 \<le> y" "y < surf_h fmt"
  shows "0 \<le> y * surf_pitch fmt + x * 3"
    and "y * surf_pitch fmt + x * 3 + 2 < int (length pixels)"
proof -
  let ?p = "surf_pitch fmt"
  have p: "3 * surf_w fmt \<le> ?p" and l: "surf_h fmt * ?p \<le> int (length pixels)"
    using ok by (simp_all add: rgb24_ok_def)
  have p0: "0 \<le> ?p" using p x by linarith
  show "0 \<le> y * ?p + x * 3" using y x p0 by simp
  have "y * ?p + x * 3 + 2 < y * ?p + ?p" using x p by linarith
  also have "\<dots> = (y + 1) * ?p" by (simp add: algebra_simps)
  also have "\<dots> \<le> surf_h fmt * ?p" using y p0 by (intro mult_right_mono) simp_all
  finally show "y * ?p + x * 3 + 2 < int (length pixels)" using l by linarith
qed

lemma rgb24_ok_sizes:
  assumes "rgb24_ok fmt pixels"
  shows "0 < surf_w fmt" and "0 < surf_h fmt" and "surf_w fmt \<le> 2 ^ 31" and "surf_h fmt \<le> 2 ^ 31"
    and "0 \<le> surf_pitch fmt"
proof -
  let ?w = "surf_w fmt" and ?h = "surf_h fmt" and ?p = "surf_pitch fmt"
  from assms have w: "0 < ?w" and h: "0 < ?h" and p: "3 * ?w \<le> ?p"
    and B: "?h * ?p \<le> INT32_MAX"
    by (simp_all add: rgb24_ok_def)
  have p1: "1 \<le> ?p" using w p by linarith
  have "?h * 1 \<le> ?h * ?p" using h p1 by (intro mult_left_mono) simp_all
  then have hm: "?h \<le> INT32_MAX" using B by simp
  have "1 * ?p \<le> ?h * ?p" using h p1 by (intro mult_right_mono) simp_all
  then have "?p \<le> INT32_MAX" using B by simp
  then have wm: "?w \<le> INT32_MAX" using p w by linarith
  show "0 < ?w" "0 < ?h" "0 \<le> ?p" using w h p1 by simp_all
  show "?w \<le> 2 ^ 31" "?h \<le> 2 ^ 31" using wm hm by (simp_all add: INT32_MAX_def)
qed

text \<open>
  For a cell of the grid the sample coordinates are pixels of the image already: the two
  clamps change nothing, and no \<open>int\<close> operation of the loop body overflows.
\<close>

lemma sample_in_image:
  assumes ok: "rgb24_ok fmt pixels" and g: "grid_ok st" and cell: "in_grid st cx cy"
  shows "0 \<le> sample_coord cx (CELLS_X st) (surf_w fmt)"
    and "sample_coord cx (CELLS_X st) (surf_w fmt) < surf_w fmt"
    and "0 \<le> sample_coord cy (CELLS_Y st) (surf_h fmt)"
    and "sample_coord cy (CELLS_Y st) (surf_h fmt) < surf_h fmt"
proof -
  have b: "0 \<le> cx" "cx < CELLS_X st" "0 \<le> cy" "cy < CELLS_Y st"
    using cell by (simp_all add: in_grid_def)
  show "0 \<le> sample_coord cx (CELLS_X st) (surf_w fmt)"
    and "sample_coord cx (CELLS_X st) (surf_w fmt) < surf_w fmt"
    using sample_coord_bounds(1,2)[OF b(1,2) grid_ok_sizes(1)[OF g] rgb24_ok_sizes(1,3)[OF ok]]
    by simp_all
  show "0 \<le> sample_coord cy (CELLS_Y st) (surf_h fmt)"
    and "sample_coord cy (CELLS_Y st) (surf_h fmt) < surf_h fmt"
    using sample_coord_bounds(1,2)[OF b(3,4) grid_ok_sizes(2)[OF g] rgb24_ok_sizes(2,4)[OF ok]]
    by simp_all
qed

lemma load_cell_value:
  assumes ok: "rgb24_ok fmt pixels" and g: "grid_ok st" and cell: "in_grid st cx cy"
  shows "load_cell st fmt pixels cy cx cv =
           store_at cv (cy * CELLS_X st + cx)
             (word_of_int (nearest_palette_index (palette st) (sampled_color st fmt pixels cx cy)))"
proof -
  let ?sx = "sample_coord cx (CELLS_X st) (surf_w fmt)"
  let ?sy = "sample_coord cy (CELLS_Y st) (surf_h fmt)"
  let ?p = "surf_pitch fmt"
  note s = sample_in_image[OF ok g cell]
  have sx: "0 \<le> ?sx" "?sx < surf_w fmt" and sy: "0 \<le> ?sy" "?sy < surf_h fmt"
    using s by simp_all
  have cl: "clamp_coord ?sx (surf_w fmt) = ?sx" "clamp_coord ?sy (surf_h fmt) = ?sy"
    using sx sy by (simp_all add: clamp_coord_id)
  have p: "3 * surf_w fmt \<le> ?p" and B: "surf_h fmt * ?p \<le> INT32_MAX"
    using ok by (simp_all add: rgb24_ok_def)
  have p0: "0 \<le> ?p" using rgb24_ok_sizes(5)[OF ok] .
  have "?sy * ?p \<le> surf_h fmt * ?p" using sy p0 by (intro mult_right_mono) simp_all
  then have line: "0 \<le> ?sy * ?p" "?sy * ?p \<le> INT32_MAX" using sy p0 B by simp_all
  have "1 * ?p \<le> surf_h fmt * ?p" using sy p0 by (intro mult_right_mono) simp_all
  then have "?p \<le> surf_h fmt * ?p" by simp
  then have off: "0 \<le> ?sx * 3" "?sx * 3 \<le> INT32_MAX" using sx p B by linarith+
  have sm: "?sx \<le> INT32_MAX" "?sy \<le> INT32_MAX"
    using sx sy rgb24_ok_sizes(3,4)[OF ok] by (simp_all add: INT32_MAX_def)
  have ci: "c_int ?sx = Some ?sx" "c_int ?sy = Some ?sy"
    "c_int (?sy * ?p) = Some (?sy * ?p)" "c_int (?sx * 3) = Some (?sx * 3)"
    using sx(1) sy(1) sm line off by (simp_all add: c_int_nonneg)
  from rgb24_offsets[OF ok sx sy]
  have ld: "load_at pixels (?sy * ?p + ?sx * 3) = Some (pixels ! nat (?sy * ?p + ?sx * 3))"
       "load_at pixels (?sy * ?p + ?sx * 3 + 1) = Some (pixels ! nat (?sy * ?p + ?sx * 3 + 1))"
       "load_at pixels (?sy * ?p + ?sx * 3 + 2) = Some (pixels ! nat (?sy * ?p + ?sx * 3 + 2))"
    by (simp_all add: load_at_def)
  note ik = grid_cell_int(1,2)[OF g cell]
  show ?thesis
    by (simp add: load_cell_def Let_def sampled_color_def rgb24_pixel_def ci cl ld ik)
qed

lemma load_bmp_to_canvas_cells:
  assumes g: "grid_ok st" and l: "SDL_LoadBMP env fname = Some surf"
    and c: "SDL_ConvertSurfaceFormat env surf = Some fmt" and ok: "rgb24_ok fmt pixels"
  shows "\<exists>cv'. load_bmp_to_canvas env fname st = Some (0, st\<lparr>canvas := Some cv'\<rparr>)
    \<and> int (length cv') = CELLS_X st * CELLS_Y st
    \<and> (\<forall>cx cy. in_grid st cx cy \<longrightarrow>
          cv' ! nat (cy * CELLS_X st + cx)
            = word_of_int (nearest_palette_index (palette st) (sampled_color st fmt pixels cx cy)))"
proof -
  let ?W = "CELLS_X st" and ?H = "CELLS_Y st"
  from g obtain cv where cv: "canvas st = Some cv" "int (length cv) = ?W * ?H"
    and pos: "0 < ?W" "0 < ?H" by (auto elim: grid_okD)
  have px: "surf_pixels fmt = Bytes pixels" using ok by (simp add: rgb24_ok_def)
  have w: "0 \<le> ?W" and h: "0 \<le> ?H" using pos by simp_all
  have "\<exists>t. for_loop 0 ?H (\<lambda>cy. for_loop 0 ?W (load_cell st fmt pixels cy)) cv = Some t
          \<and> int (length t) = ?W * ?H
          \<and> (\<forall>x y. 0 \<le> x \<and> x < ?W \<and> 0 \<le> y \<and> y < ?H \<longrightarrow>
                t ! nat (y * ?W + x)
                  = word_of_int (nearest_palette_index (palette st) (sampled_color st fmt pixels x y)))"
    using w h cv(2)
  proof (rule fill_rows)
    fix x y and t :: "uint8 list"
    assume x: "0 \<le> x" "x < ?W" and y: "0 \<le> y" "y < ?H" and len: "int (length t) = ?W * ?H"
    have "0 \<le> y * ?W + x" "y * ?W + x < int (length t)"
      using cell_index_bounds[OF x y] len by simp_all
    moreover have "in_grid st x y" using x y by (simp add: in_grid_def)
    ultimately show "load_cell st fmt pixels y x t =
        Some (t[nat (y * ?W + x) :=
          word_of_int (nearest_palette_index (palette st) (sampled_color st fmt pixels x y))])"
      by (simp add: load_cell_value[OF ok g] store_at_def)
  qed
  then obtain t where t: "for_loop 0 ?H (\<lambda>cy. for_loop 0 ?W (load_cell st fmt pixels cy)) cv = Some t"
      "int (length t) = ?W * ?H"
      "\<forall>x y. 0 \<le> x \<and> x < ?W \<and> 0 \<le> y \<and> y < ?H \<longrightarrow>
                t ! nat (y * ?W + x)
                  = word_of_int (nearest_palette_index (palette st) (sampled_color st fmt pixels x y))"
    by blast
  have "load_bmp_to_canvas env fname st = Some (0, st\<lparr>canvas := Some t\<rparr>)"
    using l c px cv(1) t(1) by (simp add: load_bmp_to_canvas_def)
  then show ?thesis using t(2,3) by (auto simp: in_grid_def)
qed

lemma get_cell_loaded:
  assumes "int (length cv') = CELLS_X st * CELLS_Y st" "in_grid st cx cy"
    and "cv' ! nat (cy * CELLS_X st + cx) = word_of_int (nearest_palette_index pal c)"
    and "CELLS_X st * CELLS_Y st \<le> INT32_MAX"
  shows "get_cell (st\<lparr>canvas := Some cv'\<rparr>) cx cy = Some (nearest_palette_index pal c)"
proof -
  have b: "0 \<le> cx" "cx < CELLS_X st" "0 \<le> cy" "cy < CELLS_Y st"
    using assms(2) by (simp_all add: in_grid_def)
  have "0 \<le> cy * CELLS_X st + cx" "cy * CELLS_X st + cx < int (length cv')"
    using cell_index_bounds[OF b] assms(1) by simp_all
  then show ?thesis
    using assms(3) nearest_palette_index_range[of pal c] cell_index_int[OF b assms(4)]
    by (simp add: get_cell_def load_at_def uint_word_of_int_small)
qed

lemma load_bmp_to_canvas_get_cell:
  assumes g: "grid_ok st" and l: "SDL_LoadBMP env fname = Some surf"
    and c: "SDL_ConvertSurfaceFormat env surf = Some fmt" and ok: "rgb24_ok fmt pixels"
  shows "\<exists>st'. load_bmp_to_canvas env fname st = Some (0, st')
    \<and> (\<forall>cx cy. in_grid st cx cy \<longrightarrow>
          get_cell st' cx cy
            = Some (nearest_palette_index (palette st) (sampled_color st fmt pixels cx cy)))"
proof -
  from load_bmp_to_canvas_cells[OF g l c ok] obtain cv' where
    cv': "load_bmp_to_canvas env fname st = Some (0, st\<lparr>canvas := Some cv'\<rparr>)"
      "int (length cv') = CELLS_X st * CELLS_Y st"
      "\<forall>cx cy. in_grid st cx cy \<longrightarrow> cv' ! nat (cy * CELLS_X st + cx)
            = word_of_int (nearest_palette_index (palette st) (sampled_color st fmt pixels cx cy))"
    by blast
  have "get_cell (st\<lparr>canvas := Some cv'\<rparr>) cx cy
          = Some (nearest_palette_index (palette st) (sampled_color st fmt pixels cx cy))"
    if "in_grid st cx cy" for cx cy
  proof -
    have "CELLS_X st * CELLS_Y st \<le> INT32_MAX" using g by (auto elim: grid_okD)
    from get_cell_loaded[OF cv'(2) that _ this] cv'(3) that show ?thesis by simp
  qed
  with cv'(1) show ?thesis by blast
qed

lemma clamp_coord_one: "clamp_coord s 1 = 0"
  by (simp add: clamp_coord_def Let_def)

lemma clamp_coord_cases:
  "0 < img \<Longrightarrow> clamp_coord s img = (if s < 0 then 0 else if img \<le> s then img - 1 else s)"
  by (simp add: clamp_coord_def Let_def)

text \<open>
  Claim C4, as amended. For a source image of at least 1 by 1 pixels, loading sets every
  cell \<open>(cx, cy)\<close> of the grid to the nearest palette index of the colour whose three bytes
  stand at \<open>sy * pitch + sx * 3\<close>, with alpha 255, where
  \<open>sx = (int)(((cx + 0.5) / CELLS_X) * img_w)\<close> and \<open>sy = (int)(((cy + 0.5) / CELLS_Y) * img_h)\<close>
  are evaluated in double precision, each of the three operations rounded to the nearest
  double. The double before the cast is within \<open>2^-20\<close> of the exact value, so \<open>sx\<close> lies
  between the floors of the exact value minus and plus \<open>2^-20\<close> (it is the floor of the
  exact value unless that value is this close to an integer). \<open>sx\<close> is in
  \<open>[0, img_w - 1]\<close> and \<open>sy\<close> in \<open>[0, img_h - 1]\<close> already: the clamp, which maps a negative
  coordinate to 0, one of \<open>img\<close> or more to \<open>img - 1\<close> and leaves the others, changes
  neither. A 1 by 1 image maps every cell to the nearest palette index of its one pixel.
\<close>

theorem load_bmp_to_canvas_samples:
  assumes "grid_ok st" and "SDL_LoadBMP env fname = Some surf"
    and "SDL_ConvertSurfaceFormat env surf = Some fmt" and "rgb24_ok fmt pixels"
  shows "\<exists>st'. load_bmp_to_canvas env fname st = Some (0, st')
    \<and> (\<forall>cx cy. in_grid st cx cy \<longrightarrow>
          (\<exists>sx sy.
             sx = int_of_double
                    (fmul (fdiv (fadd (double_of_int cx) (1/2)) (double_of_int (CELLS_X st)))
                       (double_of_int (surf_w fmt)))
           \<and> sy = int_of_double
                    (fmul (fdiv (fadd (double_of_int cy) (1/2)) (double_of_int (CELLS_Y st)))
                       (double_of_int (surf_h fmt)))
           \<and> \<lfloor>(of_int cx + 1/2) / of_int (CELLS_X st) * (of_int (surf_w fmt) :: rat) - 1 / 2 ^ 20\<rfloor> \<le> sx
           \<and> sx \<le> \<lfloor>(of_int cx + 1/2) / of_int (CELLS_X st) * (of_int (surf_w fmt) :: rat) + 1 / 2 ^ 20\<rfloor>
           \<and> \<lfloor>(of_int cy + 1/2) / of_int (CELLS_Y st) * (of_int (surf_h fmt) :: rat) - 1 / 2 ^ 20\<rfloor> \<le> sy
           \<and> sy \<le> \<lfloor>(of_int cy + 1/2) / of_int (CELLS_Y st) * (of_int (surf_h fmt) :: rat) + 1 / 2 ^ 20\<rfloor>
           \<and> 0 \<le> sx \<and> sx \<le> surf_w fmt - 1 \<and> 0 \<le> sy \<and> sy \<le> surf_h fmt - 1
           \<and> clamp_coord sx (surf_w fmt) = sx \<and> clamp_coord sy (surf_h fmt) = sy
           \<and> get_cell st' cx cy
               = Some (nearest_palette_index (palette st)
                   \<lparr>c_r = pixels ! nat (sy * surf_pitch fmt + sx * 3),
                    c_g = pixels ! nat (sy * surf_pitch fmt + sx * 3 + 1),
                    c_b = pixels ! nat (sy * surf_pitch fmt + sx * 3 + 2),
                    c_a = 255\<rparr>)))
    \<and> (\<forall>s. clamp_coord s (surf_w fmt)
             = (if s < 0 then 0 else if surf_w fmt \<le> s then surf_w fmt - 1 else s))
    \<and> (\<forall>s. clamp_coord s (surf_h fmt)
             = (if s < 0 then 0 else if surf_h fmt \<le> s then surf_h fmt - 1 else s))
    \<and> (surf_w fmt = 1 \<and> surf_h fmt = 1 \<longrightarrow>
          (\<forall>cx cy. in_grid st cx cy \<longrightarrow>
             get_cell st' cx cy
               = Some (nearest_palette_index (palette st)
                   \<lparr>c_r = pixels ! 0, c_g = pixels ! 1, c_b = pixels ! 2, c_a = 255\<rparr>)))"
proof -
  from load_bmp_to_canvas_get_cell[OF assms] obtain st' where
    st': "load_bmp_to_canvas env fname st = Some (0, st')"
      "\<forall>cx cy. in_grid st cx cy \<longrightarrow> get_cell st' cx cy
            = Some (nearest_palette_index (palette st) (sampled_color st fmt pixels cx cy))"
    by blast
  note g = assms(1) and ok = assms(4)
  have wh: "0 < surf_w fmt" "0 < surf_h fmt" using rgb24_ok_sizes(1,2)[OF ok] .
  have cell: "\<exists>sx sy.
             sx = int_of_double
                    (fmul (fdiv (fadd (double_of_int cx) (1/2)) (double_of_int (CELLS_X st)))
                       (double_of_int (surf_w fmt)))
           \<and> sy = int_of_double
                    (fmul (fdiv (fadd (double_of_int cy) (1/2)) (double_of_int (CELLS_Y st)))
                       (double_of_int (surf_h fmt)))
           \<and> \<lfloor>(of_int cx + 1/2) / of_int (CELLS_X st) * (of_int (surf_w fmt) :: rat) - 1 / 2 ^ 20\<rfloor> \<le> sx
           \<and> sx \<le> \<lfloor>(of_int cx + 1/2) / of_int (CELLS_X st) * (of_int (surf_w fmt) :: rat) + 1 / 2 ^ 20\<rfloor>
           \<and> \<lfloor>(of_int cy + 1/2) / of_int (CELLS_Y st) * (of_int (surf_h fmt) :: rat) - 1 / 2 ^ 20\<rfloor> \<le> sy
           \<and> sy \<le> \<lfloor>(of_int cy + 1/2) / of_int (CELLS_Y st) * (of_int (surf_h fmt) :: rat) + 1 / 2 ^ 20\<rfloor>
           \<and> 0 \<le> sx \<and> sx \<le> surf_w fmt - 1 \<and> 0 \<le> sy \<and> sy \<le> surf_h fmt - 1
           \<and> clamp_coord sx (surf_w fmt) = sx \<and> clamp_coord sy (surf_h fmt) = sy
           \<and> get_cell st' cx cy
               = Some (nearest_palette_index (palette st)
                   \<lparr>c_r = pixels ! nat (sy * surf_pitch fmt + sx * 3),
                    c_g = pixels ! nat (sy * surf_pitch fmt + sx * 3 + 1),
                    c_b = pixels ! nat (sy * surf_pitch fmt + sx * 3 + 2),
                    c_a = 255\<rparr>)"
    if c: "in_grid st cx cy" for cx cy
  proof -
    let ?sx = "sample_coord cx (CELLS_X st) (surf_w fmt)"
    let ?sy = "sample_coord cy (CELLS_Y st) (surf_h fmt)"
    have b: "0 \<le> cx" "cx < CELLS_X st" "0 \<le> cy" "cy < CELLS_Y st"
      using c by (simp_all add: in_grid_def)
    note ex = sample_coord_bounds[OF b(1,2) grid_ok_sizes(1)[OF g] rgb24_ok_sizes(1,3)[OF ok]]
    note ey = sample_coord_bounds[OF b(3,4) grid_ok_sizes(2)[OF g] rgb24_ok_sizes(2,4)[OF ok]]
    have cl: "clamp_coord ?sx (surf_w fmt) = ?sx" "clamp_coord ?sy (surf_h fmt) = ?sy"
      using ex(1,2) ey(1,2) by (simp_all add: clamp_coord_id)
    have "get_cell st' cx cy
            = Some (nearest_palette_index (palette st)
                \<lparr>c_r = pixels ! nat (?sy * surf_pitch fmt + ?sx * 3),
                 c_g = pixels ! nat (?sy * surf_pitch fmt + ?sx * 3 + 1),
                 c_b = pixels ! nat (?sy * surf_pitch fmt + ?sx * 3 + 2),
                 c_a = 255\<rparr>)"
      using st'(2) c by (simp add: sampled_color_def rgb24_pixel_def cl)
    moreover have "?sx \<le> surf_w fmt - 1" "?sy \<le> surf_h fmt - 1" using ex(2) ey(2) by simp_all
    moreover have "?sx = int_of_double
                    (fmul (fdiv (fadd (double_of_int cx) (1/2)) (double_of_int (CELLS_X st)))
                       (double_of_int (surf_w fmt)))"
      "?sy = int_of_double
                    (fmul (fdiv (fadd (double_of_int cy) (1/2)) (double_of_int (CELLS_Y st)))
                       (double_of_int (surf_h fmt)))"
      by (simp_all only: sample_coord_def)
    ultimately show ?thesis
      using ex(1,3,4) ey(1,3,4) cl by (intro exI[of _ ?sx] exI[of _ ?sy] conjI)
  qed
  have one: "get_cell st' cx cy
               = Some (nearest_palette_index (palette st)
                   \<lparr>c_r = pixels ! 0, c_g = pixels ! 1, c_b = pixels ! 2, c_a = 255\<rparr>)"
    if "surf_w fmt = 1 \<and> surf_h fmt = 1" "in_grid st cx cy" for cx cy
    using st'(2) that by (simp add: sampled_color_def rgb24_pixel_def clamp_coord_one)
  show ?thesis
    apply (intro exI[of _ st'] conjI allI impI)
    subgoal by (rule st'(1))
    subgoal for cx cy by (rule cell)
    subgoal for s by (rule clamp_coord_cases[OF wh(1)])
    subgoal for s by (rule clamp_coord_cases[OF wh(2)])
    subgoal for cx cy by (rule one)
    done
qed

text \<open>
  On the striped image, 90 pixels wide, the five cells of the 5 by 1 editor sample the
  pixels 9, 27, 45, 62 and 81: cell 3 reads the black pixel 62 and becomes index 1, cell 2
  reads a white pixel and becomes index 0.
\<close>

theorem load_bmp_to_canvas_samples_witness:
  "grid_ok wide_editor \<and> SDL_LoadBMP stripe_env ''stripe.bmp'' = Some stripe_image
   \<and> SDL_ConvertSurfaceFormat stripe_env stripe_image = Some stripe_image
   \<and> rgb24_ok stripe_image stripe_pixels \<and> in_grid wide_editor 3 0 \<and> in_grid wide_editor 2 0
   \<and> (\<exists>st'. load_bmp_to_canvas stripe_env ''stripe.bmp'' wide_editor = Some (0, st')
         \<and> get_cell st' 3 0 = Some 1 \<and> get_cell st' 2 0 = Some 0)"
proof -
  have g: "grid_ok wide_editor" by (rule grid_ok_examples)
  have l: "SDL_LoadBMP stripe_env ''stripe.bmp'' = Some stripe_image"
    and c: "SDL_ConvertSurfaceFormat stripe_env stripe_image = Some stripe_image"
    by (simp_all add: stripe_env_def)
  have ok: "rgb24_ok stripe_image stripe_pixels"
    by (simp add: rgb24_ok_def stripe_image_def stripe_pixels_def INT32_MAX_def)
  have i: "in_grid wide_editor 3 0" "in_grid wide_editor 2 0"
    by (simp_all add: in_grid_def wide_editor_def)
  have x3: "int_of_double
              (fmul (fdiv (fadd (double_of_int 3) (1/2)) (double_of_int (CELLS_X wide_editor)))
                 (double_of_int (surf_w stripe_image))) = 62"
    by code_simp
  have x2: "int_of_double
              (fmul (fdiv (fadd (double_of_int 2) (1/2)) (double_of_int (CELLS_X wide_editor)))
                 (double_of_int (surf_w stripe_image))) = 45"
    by code_simp
  have y0: "int_of_double
              (fmul (fdiv (fadd (double_of_int 0) (1/2)) (double_of_int (CELLS_Y wide_editor)))
                 (double_of_int (surf_h stripe_image))) = 0"
    by code_simp
  have n3: "nearest_palette_index (palette wide_editor)
              \<lparr>c_r = stripe_pixels ! nat (0 * surf_pitch stripe_image + 62 * 3),
               c_g = stripe_pixels ! nat (0 * surf_pitch stripe_image + 62 * 3 + 1),
               c_b = stripe_pixels ! nat (0 * surf_pitch stripe_image + 62 * 3 + 2),
               c_a = 255\<rparr> = 1"
    by code_simp
  have n2: "nearest_palette_index (palette wide_editor)
              \<lparr>c_r = stripe_pixels ! nat (0 * surf_pitch stripe_image + 45 * 3),
               c_g = stripe_pixels ! nat (0 * surf_pitch stripe_image + 45 * 3 + 1),
               c_b = stripe_pixels ! nat (0 * surf_pitch stripe_image + 45 * 3 + 2),
               c_a = 255\<rparr> = 0"
    by code_simp
  have "\<exists>st'. load_bmp_to_canvas stripe_env ''stripe.bmp'' wide_editor = Some (0, st')
         \<and> get_cell st' 3 0 = Some 1 \<and> get_cell st' 2 0 = Some 0"
    using load_bmp_to_canvas_samples[OF g l c ok]
    apply (elim exE conjE)
    subgoal premises p for st'
    proof -
      from p(2)[rule_format, OF i(1)] have 3: "get_cell st' 3 0 = Some 1"
        by (elim exE conjE) (simp only: x3 y0 n3)
      from p(2)[rule_format, OF i(2)] have 2: "get_cell st' 2 0 = Some 0"
        by (elim exE conjE) (simp only: x2 y0 n2)
      from p(1) 3 2 show ?thesis by blast
    qed
    done
  then show ?thesis using g l c ok i by blast
qed

text \<open>
  The double-precision sample coordinate is not always the floor of the exact value: for
  cell 3 of 5 over an image 90 pixels wide, \<open>(3 + 0.5) / 5\<close> rounds to a double below
  \<open>0.7\<close>, its product with 90 rounds to a double below 63, and the cast gives 62, while
  \<open>floor(3.5 / 5 * 90) = 63\<close>. On the striped image the cell becomes black (index 1);
  pixel 63 would have made it white (index 0).
\<close>

theorem load_sample_differs_from_exact_floor:
  "sample_coord 3 5 90 = 62 \<and> sample_exact 3 5 90 = 63
   \<and> (\<exists>st'. load_bmp_to_canvas stripe_env ''stripe.bmp'' wide_editor = Some (0, st')
         \<and> get_cell st' 3 0 = Some 1)
   \<and> nearest_palette_index (palette wide_editor)
        (rgb24_pixel stripe_image stripe_pixels
           (clamp_coord (sample_exact 3 5 90) 90) (clamp_coord (sample_exact 0 1 1) 1)) = 0"
proof -
  have g: "grid_ok wide_editor" by (rule grid_ok_examples)
  have l: "SDL_LoadBMP stripe_env ''stripe.bmp'' = Some stripe_image"
    and c: "SDL_ConvertSurfaceFormat stripe_env stripe_image = Some stripe_image"
    by (simp_all add: stripe_env_def)
  have ok: "rgb24_ok stripe_image stripe_pixels"
    by (simp add: rgb24_ok_def stripe_image_def stripe_pixels_def INT32_MAX_def)
  have i: "in_grid wide_editor 3 0" by (simp add: in_grid_def wide_editor_def)
  have s: "sample_coord 3 5 90 = 62" by code_simp
  have e: "sample_exact 3 5 90 = 63" by code_simp
  have n: "nearest_palette_index (palette wide_editor)
             (sampled_color wide_editor stripe_image stripe_pixels 3 0) = 1"
    by code_simp
  have m: "nearest_palette_index (palette wide_editor)
        (rgb24_pixel stripe_image stripe_pixels
           (clamp_coord (sample_exact 3 5 90) 90) (clamp_coord (sample_exact 0 1 1) 1)) = 0"
    by code_simp
  from load_bmp_to_canvas_get_cell[OF g l c ok] i n
  have "\<exists>st'. load_bmp_to_canvas stripe_env ''stripe.bmp'' wide_editor = Some (0, st')
         \<and> get_cell st' 3 0 = Some 1" by auto
  with s e m show ?thesis by blast
qed

section \<open>Channels of the exported pixels\<close>

lemma mask_shifts:
  "mask_shift 0xff000000 = 24" "mask_shift 0x00ff0000 = 16" "mask_shift 0x0000ff00 = 8"
  "mask_shift 0x000000ff = 0"
  by code_simp+

lemma bit_255_word: "bit (255 :: 'a :: len word) n \<longleftrightarrow> n < LENGTH('a) \<and> n < 8"
proof -
  have m: "(255 :: 'a word) = mask 8" by (simp add: mask_eq_exp_minus_1)
  show ?thesis unfolding m bit_mask_iff by auto
qed

lemma bit_255_int: "bit (255 :: int) n \<longleftrightarrow> n < 8"
proof -
  have m: "(255 :: int) = mask 8" by (simp add: mask_eq_exp_minus_1)
  show ?thesis unfolding m bit_mask_iff by auto
qed

lemma bit_255_nat: "bit (255 :: nat) n \<longleftrightarrow> n < 8"
proof -
  have m: "(255 :: nat) = mask 8" by (simp add: mask_eq_exp_minus_1)
  show ?thesis unfolding m bit_mask_iff by auto
qed

lemmas bit_255 = bit_255_word bit_255_int bit_255_nat

lemma bit_uint8_high: "bit (x :: uint8) n \<Longrightarrow> n < 8"
  using bit_imp_le_length[of x n] by simp

lemma mask_channel_r: "mask_channel 0xff000000 (pack_pixel col) = c_r col"
  unfolding mask_channel_def mask_shifts pack_pixel_def
  apply (rule bit_word_eqI)
  apply (auto simp: bit_simps bit_255 dest: bit_uint8_high)
  done

lemma mask_channel_g: "mask_channel 0x00ff0000 (pack_pixel col) = c_g col"
  unfolding mask_channel_def mask_shifts pack_pixel_def
  apply (rule bit_word_eqI)
  apply (auto simp: bit_simps bit_255 dest: bit_uint8_high)
  done

lemma mask_channel_b: "mask_channel 0x0000ff00 (pack_pixel col) = c_b col"
  unfolding mask_channel_def mask_shifts pack_pixel_def
  apply (rule bit_word_eqI)
  apply (auto simp: bit_simps bit_255 dest: bit_uint8_high)
  done

lemma mask_channel_a: "mask_channel 0x000000ff (pack_pixel col) = c_a col"
  unfolding mask_channel_def mask_shifts pack_pixel_def
  apply (rule bit_word_eqI)
  apply (auto simp: bit_simps bit_255 dest: bit_uint8_high)
  done

lemma save_surface_color:
  assumes ok: "export_ok st"
    and x: "0 \<le> x" "x < CELLS_X st * CELL_SIZE st"
    and y: "0 \<le> y" "y < CELLS_Y st * CELL_SIZE st"
  shows "\<exists>surf. save_surface bo st = Some surf
    \<and> surf_w surf = CELLS_X st * CELL_SIZE st \<and> surf_h surf = CELLS_Y st * CELL_SIZE st
    \<and> (Rmask surf, Gmask surf, Bmask surf, Amask surf) = surface_masks bo
    \<and> surface_color surf x y
        = Some (SDL_GetRGBA (pack_pixel (cell_color st (x div CELL_SIZE st) (y div CELL_SIZE st))) surf)"
proof -
  let ?w = "CELLS_X st * CELL_SIZE st" and ?h = "CELLS_Y st * CELL_SIZE st"
  from save_pixels_cells[OF ok] obtain pixels where
    p: "save_pixels st = Some pixels" "int (length pixels) = ?w * ?h"
       "\<forall>x y. 0 \<le> x \<and> x < ?w \<and> 0 \<le> y \<and> y < ?h \<longrightarrow>
          pixels ! nat (y * ?w + x)
            = pack_pixel (cell_color st (x div CELL_SIZE st) (y div CELL_SIZE st))"
    by blast
  let ?surf = "SDL_CreateRGBSurfaceFrom pixels ?w ?h (?w * 4) (surface_masks bo)"
  have "c_int ?w = Some ?w" "c_int ?h = Some ?h" "c_int (?w * 4) = Some (?w * 4)"
    using export_ok_sizes[OF ok] by (simp_all add: c_int_nonneg)
  then have s: "save_surface bo st = Some ?surf" using p(1) by (simp add: save_surface_def)
  have k: "0 \<le> y * ?w + x" "y * ?w + x < int (length pixels)"
    using cell_index_bounds[OF x y] p(2) by simp_all
  have f: "surf_w ?surf = ?w" "surf_h ?surf = ?h" "surf_pitch ?surf = ?w * 4"
    "surf_pixels ?surf = Words pixels"
    "(Rmask ?surf, Gmask ?surf, Bmask ?surf, Amask ?surf) = surface_masks bo"
    by (simp_all add: SDL_CreateRGBSurfaceFrom_def split: prod.splits)
  have "surface_color ?surf x y = Some (SDL_GetRGBA (pixels ! nat (y * ?w + x)) ?surf)"
    using k by (simp add: surface_color_def f load_at_def)
  then show ?thesis using s f p(3) x y by simp
qed

lemma SDL_GetRGBA_pack_big:
  assumes "(Rmask surf, Gmask surf, Bmask surf, Amask surf) = surface_masks SDL_BIG_ENDIAN"
  shows "SDL_GetRGBA (pack_pixel col) surf = col"
proof -
  have "Rmask surf = 0xff000000" "Gmask surf = 0x00ff0000" "Bmask surf = 0x0000ff00"
    "Amask surf = 0x000000ff"
    using assms by (simp_all add: surface_masks_def)
  then show ?thesis
    by (simp add: SDL_GetRGBA_def mask_channel_r mask_channel_g mask_channel_b mask_channel_a)
qed

lemma SDL_GetRGBA_pack_little:
  assumes "(Rmask surf, Gmask surf, Bmask surf, Amask surf) = surface_masks SDL_LIL_ENDIAN"
  shows "SDL_GetRGBA (pack_pixel col) surf
           = \<lparr>c_r = c_a col, c_g = c_b col, c_b = c_g col, c_a = c_r col\<rparr>"
proof -
  have "Rmask surf = 0x000000ff" "Gmask surf = 0x0000ff00" "Bmask surf = 0x00ff0000"
    "Amask surf = 0xff000000"
    using assms by (simp_all add: surface_masks_def)
  then show ?thesis
    by (simp add: SDL_GetRGBA_def mask_channel_r mask_channel_g mask_channel_b mask_channel_a)
qed

lemma save_surface_color_big:
  assumes "export_ok st"
    and "0 \<le> x" "x < CELLS_X st * CELL_SIZE st" "0 \<le> y" "y < CELLS_Y st * CELL_SIZE st"
  shows "\<exists>surf. save_surface SDL_BIG_ENDIAN st = Some surf
    \<and> surface_color surf x y = Some (cell_color st (x div CELL_SIZE st) (y div CELL_SIZE st))"
  using save_surface_color[OF assms, of SDL_BIG_ENDIAN] SDL_GetRGBA_pack_big by auto

lemma save_surface_color_little:
  assumes "export_ok st"
    and "0 \<le> x" "x < CELLS_X st * CELL_SIZE st" "0 \<le> y" "y < CELLS_Y st * CELL_SIZE st"
  shows "\<exists>surf. save_surface SDL_LIL_ENDIAN st = Some surf
    \<and> surface_color surf x y
        = Some \<lparr>c_r = c_a (cell_color st (x div CELL_SIZE st) (y div CELL_SIZE st)),
                c_g = c_b (cell_color st (x div CELL_SIZE st) (y div CELL_SIZE st)),
                c_b = c_g (cell_color st (x div CELL_SIZE st) (y div CELL_SIZE st)),
                c_a = c_r (cell_color st (x div CELL_SIZE st) (y div CELL_SIZE st))\<rparr>"
  using save_surface_color[OF assms, of SDL_LIL_ENDIAN] SDL_GetRGBA_pack_little by auto

text \<open>
  Claim C2, on a little-endian build. The pixel word is \<open>r<<24 | g<<16 | b<<8 | a\<close> whatever
  the byte order, but the little-endian masks put red in the lowest byte: SDL reads the
  palette's alpha as red, blue as green, green as blue and red as alpha. The black cell
  \<open>(1, 1)\<close> of the example (colour \<open>0, 0, 0, 255\<close>) is written as the transparent red
  \<open>255, 0, 0, 0\<close>.
\<close>

theorem save_little_endian_swaps_channels:
  "cell_color example_painted 1 1 = \<lparr>c_r = 0, c_g = 0, c_b = 0, c_a = 255\<rparr>
   \<and> (\<exists>surf. save_surface SDL_LIL_ENDIAN example_painted = Some surf
         \<and> surface_color surf 16 16 = Some \<lparr>c_r = 255, c_g = 0, c_b = 0, c_a = 0\<rparr>)"
proof -
  have c: "cell_color example_painted 1 1 = \<lparr>c_r = 0, c_g = 0, c_b = 0, c_a = 255\<rparr>"
    by (simp add: cell_color_def canvas_cells_def example_painted_def init_default_palette_def)
  have d: "CELLS_X example_painted * CELL_SIZE example_painted = 32"
    "CELLS_Y example_painted * CELL_SIZE example_painted = 32"
    "CELL_SIZE example_painted = 16"
    by (simp_all add: example_painted_def)
  from save_surface_color_little[OF example_painted_export_ok, of 16 16]
  show ?thesis using c d by simp
qed

section \<open>Failing saves and loads\<close>

lemma save_canvas_as_bmp_allocated:
  assumes "canvas st = Some cv"
    and "0 \<le> CELLS_X st * CELL_SIZE st" "CELLS_X st * CELL_SIZE st \<le> INT32_MAX"
    and "0 \<le> CELLS_Y st * CELL_SIZE st" "CELLS_Y st * CELL_SIZE st \<le> INT32_MAX"
  shows "save_canvas_as_bmp env fname st =
     (if \<not> malloc_ok env then Some (- 1, st)
      else (case save_surface (SDL_BYTEORDER env) st of
              None \<Rightarrow> None
            | Some surf \<Rightarrow>
                if \<not> SDL_CreateRGBSurfaceFrom_ok env then Some (- 1, st)
                else Some (SDL_SaveBMP env surf fname, st)))"
  using assms
  by (simp add: save_canvas_as_bmp_def ensure_canvas_allocated_def c_int_nonneg
      split: option.splits)

lemma save_canvas_as_bmp_export_ok:
  assumes "export_ok st"
  shows "save_canvas_as_bmp env fname st =
     (if \<not> malloc_ok env then Some (- 1, st)
      else (case save_surface (SDL_BYTEORDER env) st of
              None \<Rightarrow> None
            | Some surf \<Rightarrow>
                if \<not> SDL_CreateRGBSurfaceFrom_ok env then Some (- 1, st)
                else Some (SDL_SaveBMP env surf fname, st)))"
proof -
  from assms obtain cv where cv: "canvas st = Some cv"
    by (auto simp: export_ok_def elim: grid_okD)
  from export_ok_sizes[OF assms]
  have "0 \<le> CELLS_X st * CELL_SIZE st" "CELLS_X st * CELL_SIZE st \<le> INT32_MAX"
    "0 \<le> CELLS_Y st * CELL_SIZE st" "CELLS_Y st * CELL_SIZE st \<le> INT32_MAX"
    by simp_all
  then show ?thesis by (rule save_canvas_as_bmp_allocated[OF cv])
qed

lemma save_surface_defined:
  assumes "export_ok st"
  shows "\<exists>surf. save_surface bo st = Some surf"
proof -
  have "0 \<le> (0::int)" "(0::int) < CELLS_X st * CELL_SIZE st" "(0::int) < CELLS_Y st * CELL_SIZE st"
    using export_ok_sizes(1,2)[OF assms] by simp_all
  from save_surface_color[OF assms this(1,2) this(1,3), of bo] show ?thesis by blast
qed

lemma SDL_LoadBMP_from_None:
  assumes "files fname = No_file \<or> files fname = Not_a_bitmap
      \<or> (\<exists>surf. files fname = Bitmap surf \<and> (surf_w surf = 0 \<or> surf_h surf = 0))"
  shows "SDL_LoadBMP_from files fname = None"
  using assms by (auto simp: SDL_LoadBMP_from_def)

text \<open>
  Claim C5. A file that is not found, data that is no bitmap and a bitmap whose header has
  a width or height of zero all make \<open>SDL_LoadBMP\<close> return \<open>NULL\<close>, and then
  \<open>load_bmp_to_canvas\<close> returns \<open>-1\<close> with the state as it was; so it does when
  \<open>SDL_ConvertSurfaceFormat\<close> yields no surface. Whenever \<open>load_bmp_to_canvas\<close> returns a
  code other than \<open>0\<close>, that code is \<open>-1\<close> and the state, with every cell of the canvas, is
  unchanged. \<open>save_canvas_as_bmp\<close> returns \<open>-1\<close> when its buffer or its surface cannot be
  created and otherwise what \<open>SDL_SaveBMP\<close> returns (a negative code when the file cannot be
  written), and whatever it returns, it leaves an allocated canvas and the rest of the
  state unchanged.
\<close>

theorem save_load_failures:
  assumes "SDL_LoadBMP env = SDL_LoadBMP_from files"
  shows
  "(files fname = No_file \<or> files fname = Not_a_bitmap
      \<or> (\<exists>surf. files fname = Bitmap surf \<and> (surf_w surf = 0 \<or> surf_h surf = 0))
     \<longrightarrow> load_bmp_to_canvas env fname st = Some (- 1, st))
   \<and> (\<forall>surf. SDL_LoadBMP env fname = Some surf \<and> SDL_ConvertSurfaceFormat env surf = None
          \<longrightarrow> load_bmp_to_canvas env fname st = Some (- 1, st))
   \<and> (\<forall>rc st'. load_bmp_to_canvas env fname st = Some (rc, st') \<and> rc \<noteq> 0
          \<longrightarrow> rc = - 1 \<and> st' = st)
   \<and> (export_ok st \<and> \<not> malloc_ok env
          \<longrightarrow> save_canvas_as_bmp env fname st = Some (- 1, st))
   \<and> (export_ok st \<and> malloc_ok env \<and> \<not> SDL_CreateRGBSurfaceFrom_ok env
          \<longrightarrow> save_canvas_as_bmp env fname st = Some (- 1, st))
   \<and> (export_ok st \<and> malloc_ok env \<and> SDL_CreateRGBSurfaceFrom_ok env
          \<longrightarrow> (\<exists>surf. save_surface (SDL_BYTEORDER env) st = Some surf
                \<and> save_canvas_as_bmp env fname st = Some (SDL_SaveBMP env surf fname, st)))
   \<and> (\<forall>rc st'. canvas st \<noteq> None \<and> save_canvas_as_bmp env fname st = Some (rc, st')
          \<longrightarrow> st' = st)"
proof (intro conjI allI impI)
  assume "files fname = No_file \<or> files fname = Not_a_bitmap
      \<or> (\<exists>surf. files fname = Bitmap surf \<and> (surf_w surf = 0 \<or> surf_h surf = 0))"
  then have "SDL_LoadBMP env fname = None"
    unfolding assms by (rule SDL_LoadBMP_from_None)
  then show "load_bmp_to_canvas env fname st = Some (- 1, st)"
    by (simp add: load_bmp_to_canvas_def)
next
  fix surf assume "SDL_LoadBMP env fname = Some surf \<and> SDL_ConvertSurfaceFormat env surf = None"
  then show "load_bmp_to_canvas env fname st = Some (- 1, st)"
    by (simp add: load_bmp_to_canvas_def)
next
  fix rc st' assume a: "load_bmp_to_canvas env fname st = Some (rc, st') \<and> rc \<noteq> 0"
  then show "rc = - 1" "st' = st"
    using load_bmp_to_canvas_cases[of env fname st rc st'] by auto
next
  assume "export_ok st \<and> \<not> malloc_ok env"
  then show "save_canvas_as_bmp env fname st = Some (- 1, st)"
    by (simp add: save_canvas_as_bmp_export_ok)
next
  assume a: "export_ok st \<and> malloc_ok env \<and> \<not> SDL_CreateRGBSurfaceFrom_ok env"
  then obtain surf where "save_surface (SDL_BYTEORDER env) st = Some surf"
    using save_surface_defined by blast
  then show "save_canvas_as_bmp env fname st = Some (- 1, st)"
    using a by (simp add: save_canvas_as_bmp_export_ok)
next
  assume a: "export_ok st \<and> malloc_ok env \<and> SDL_CreateRGBSurfaceFrom_ok env"
  then obtain surf where "save_surface (SDL_BYTEORDER env) st = Some surf"
    using save_surface_defined by blast
  then show "\<exists>surf. save_surface (SDL_BYTEORDER env) st = Some surf
      \<and> save_canvas_as_bmp env fname st = Some (SDL_SaveBMP env surf fname, st)"
    using a by (simp add: save_canvas_as_bmp_export_ok)
next
  fix rc st' assume "canvas st \<noteq> None \<and> save_canvas_as_bmp env fname st = Some (rc, st')"
  then show "st' = st" using save_canvas_as_bmp_state by blast
qed

text \<open>
  On the example disk the bitmap of width zero, the text file and the absent file all fail
  to load and leave the painted canvas as it was; where \<open>SDL_SaveBMP\<close> cannot write, the save
  returns its \<open>-1\<close>.
\<close>

theorem save_load_failures_witness:
  "SDL_LoadBMP disk_env = SDL_LoadBMP_from example_files
   \<and> example_files ''empty.bmp'' = Bitmap empty_image \<and> surf_w empty_image = 0
   \<and> load_bmp_to_canvas disk_env ''empty.bmp'' example_painted = Some (- 1, example_painted)
   \<and> example_files ''notes.txt'' = Not_a_bitmap
   \<and> load_bmp_to_canvas disk_env ''notes.txt'' example_painted = Some (- 1, example_painted)
   \<and> example_files ''missing.bmp'' = No_file
   \<and> load_bmp_to_canvas disk_env ''missing.bmp'' example_painted = Some (- 1, example_painted)
   \<and> SDL_LoadBMP readonly_env = SDL_LoadBMP_from (\<lambda>name. No_file)
   \<and> export_ok example_painted \<and> malloc_ok readonly_env
   \<and> SDL_CreateRGBSurfaceFrom_ok readonly_env
   \<and> save_canvas_as_bmp readonly_env ''out.bmp'' example_painted = Some (- 1, example_painted)"
proof -
  have d: "SDL_LoadBMP disk_env = SDL_LoadBMP_from example_files"
    by (simp add: disk_env_def)
  have f: "example_files ''empty.bmp'' = Bitmap empty_image" "surf_w empty_image = 0"
    "example_files ''notes.txt'' = Not_a_bitmap" "example_files ''missing.bmp'' = No_file"
    by (simp_all add: example_files_def empty_image_def)
  have r: "SDL_LoadBMP readonly_env = SDL_LoadBMP_from (\<lambda>name. No_file)"
    by (simp add: readonly_env_def example_env_def SDL_LoadBMP_from_def fun_eq_iff)
  have e: "malloc_ok readonly_env" "SDL_CreateRGBSurfaceFrom_ok readonly_env"
    "\<And>surf. SDL_SaveBMP readonly_env surf ''out.bmp'' = - 1"
    by (simp_all add: readonly_env_def example_env_def)
  from save_load_failures[OF d, where fname = "''empty.bmp''" and st = example_painted] f
  have 1: "load_bmp_to_canvas disk_env ''empty.bmp'' example_painted = Some (- 1, example_painted)"
    by blast
  from save_load_failures[OF d, where fname = "''notes.txt''" and st = example_painted] f
  have 2: "load_bmp_to_canvas disk_env ''notes.txt'' example_painted = Some (- 1, example_painted)"
    by blast
  from save_load_failures[OF d, where fname = "''missing.bmp''" and st = example_painted] f
  have 3: "load_bmp_to_canvas disk_env ''missing.bmp'' example_painted = Some (- 1, example_painted)"
    by blast
  from save_load_failures[OF r, where fname = "''out.bmp''" and st = example_painted]
    example_painted_export_ok e
  have 4: "save_canvas_as_bmp readonly_env ''out.bmp'' example_painted = Some (- 1, example_painted)"
    by auto
  show ?thesis using d f r 1 2 3 4 e(1,2) example_painted_export_ok by blast
qed

text \<open>
  \<open>load_bmp_to_canvas\<close> has no test of its own on the dimensions of the image: it relies on
  \<open>SDL_LoadBMP\<close>, which yields no surface of width or height zero. Were such a surface to
  reach it, the clamp \<open>if (sx >= img_w) sx = img_w-1\<close> would set \<open>sx\<close> to \<open>-1\<close> and the first
  cell would read three bytes before the pixel buffer.
\<close>

lemma load_surface_of_width_zero:
  "load_bmp_to_canvas empty_env ''empty.bmp'' example_painted = None"
  by code_simp

section \<open>Export followed by import\<close>

lemma rgb24_pitch_ge: "3 * w \<le> rgb24_pitch w"
  unfolding rgb24_pitch_def by presburger

lemma rgb24_pitch_le: "0 \<le> w \<Longrightarrow> rgb24_pitch w \<le> 4 * w"
  unfolding rgb24_pitch_def by presburger

lemma convert_to_RGB24_ok:
  assumes "0 < surf_w surf" "0 < surf_h surf"
    and "surf_h surf * rgb24_pitch (surf_w surf) \<le> INT32_MAX"
  shows "rgb24_ok (convert_to_RGB24 bo surf) (rgb24_bytes surf)"
proof -
  have "0 \<le> surf_h surf * rgb24_pitch (surf_w surf)"
    using assms rgb24_pitch_ge[of "surf_w surf"] by simp
  then show ?thesis
    using assms rgb24_pitch_ge[of "surf_w surf"]
    by (simp add: rgb24_ok_def convert_to_RGB24_def rgb24_bytes_def)
qed

lemma rgb24_bytes_nth:
  assumes x: "0 \<le> x" "x < surf_w surf" and y: "0 \<le> y" "y < surf_h surf"
    and j: "0 \<le> j" "j < 3" and c: "surface_color surf x y = Some c"
  shows "rgb24_bytes surf ! nat (y * rgb24_pitch (surf_w surf) + x * 3 + j)
           = (if j = 0 then c_r c else if j = 1 then c_g c else c_b c)"
proof -
  let ?P = "rgb24_pitch (surf_w surf)"
  let ?o = "x * 3 + j"
  have P: "3 * surf_w surf \<le> ?P" by (rule rgb24_pitch_ge)
  have o: "0 \<le> ?o" "?o < 3 * surf_w surf" using x j by simp_all
  then have oP: "?o < ?P" using P by linarith
  have k: "0 \<le> y * ?P + ?o" "y * ?P + ?o < ?P * surf_h surf"
    using cell_index_bounds[OF o(1) oP y] by simp_all
  have dm: "(y * ?P + ?o) div ?P = y" "(y * ?P + ?o) mod ?P = ?o"
    using cell_index_div[OF o(1) oP, of y] by simp_all
  have o3: "?o div 3 = x" "?o mod 3 = j" using j by simp_all
  have lt: "nat (y * ?P + ?o) < nat (surf_h surf * ?P)"
    using k by (simp add: mult.commute)
  have "rgb24_bytes surf ! nat (y * ?P + ?o) = rgb24_byte surf (y * ?P + ?o)"
    unfolding rgb24_bytes_def using lt k(1) by simp
  also have "\<dots> = (if j = 0 then c_r c else if j = 1 then c_g c else c_b c)"
    using o(2) c unfolding rgb24_byte_def Let_def dm o3 by simp
  finally show ?thesis by (simp add: add.assoc)
qed

lemma convert_to_RGB24_pixel:
  assumes "0 \<le> x" "x < surf_w surf" "0 \<le> y" "y < surf_h surf"
    and "surface_color surf x y = Some c"
  shows "rgb24_pixel (convert_to_RGB24 bo surf) (rgb24_bytes surf) x y = c\<lparr>c_a := 255\<rparr>"
  using rgb24_bytes_nth[OF assms(1-4) _ _ assms(5), of 0]
    rgb24_bytes_nth[OF assms(1-4) _ _ assms(5), of 1]
    rgb24_bytes_nth[OF assms(1-4) _ _ assms(5), of 2]
  by (simp add: rgb24_pixel_def convert_to_RGB24_def)

lemma div_of_cell:
  fixes s c S :: int
  assumes "0 < S" "c * S \<le> s" "s < (c + 1) * S"
  shows "s div S = c"
proof -
  have "0 \<le> s - c * S" "s - c * S < S" using assms by (simp_all add: algebra_simps)
  then have "(c * S + (s - c * S)) div S = c" by (rule cell_index_div(1))
  then show ?thesis by simp
qed

lemma export_import_cell:
  assumes ok: "export_ok st" and cell: "in_grid st cx cy"
    and sx: "cx * CELL_SIZE st \<le> sample_coord cx (CELLS_X st) (CELLS_X st * CELL_SIZE st)"
            "sample_coord cx (CELLS_X st) (CELLS_X st * CELL_SIZE st) < (cx + 1) * CELL_SIZE st"
    and sy: "cy * CELL_SIZE st \<le> sample_coord cy (CELLS_Y st) (CELLS_Y st * CELL_SIZE st)"
            "sample_coord cy (CELLS_Y st) (CELLS_Y st * CELL_SIZE st) < (cy + 1) * CELL_SIZE st"
  shows "\<exists>surf st'. save_surface (SDL_BYTEORDER env) st = Some surf
    \<and> (Rmask surf, Gmask surf, Bmask surf, Amask surf) = surface_masks (SDL_BYTEORDER env)
    \<and> export_import env name st = Some (0, st')
    \<and> get_cell st' cx cy
        = Some (nearest_palette_index (palette st)
                  ((SDL_GetRGBA (pack_pixel (cell_color st cx cy)) surf)\<lparr>c_a := 255\<rparr>))"
proof -
  let ?S = "CELL_SIZE st" and ?W = "CELLS_X st" and ?H = "CELLS_Y st"
  let ?bo = "SDL_BYTEORDER env"
  let ?sx = "sample_coord cx ?W (?W * ?S)" and ?sy = "sample_coord cy ?H (?H * ?S)"
  have S: "0 < ?S" and g: "grid_ok st" using ok by (simp_all add: export_ok_def)
  have b: "0 \<le> cx" "cx < ?W" "0 \<le> cy" "cy < ?H" using cell by (simp_all add: in_grid_def)
  have x0: "0 \<le> ?sx"
  proof -
    have "0 \<le> cx * ?S" using b S by simp
    then show ?thesis using sx(1) by linarith
  qed
  have x1: "?sx < ?W * ?S"
  proof -
    have "(cx + 1) * ?S \<le> ?W * ?S" using b S by (intro mult_right_mono) simp_all
    then show ?thesis using sx(2) by linarith
  qed
  have y0: "0 \<le> ?sy"
  proof -
    have "0 \<le> cy * ?S" using b S by simp
    then show ?thesis using sy(1) by linarith
  qed
  have y1: "?sy < ?H * ?S"
  proof -
    have "(cy + 1) * ?S \<le> ?H * ?S" using b S by (intro mult_right_mono) simp_all
    then show ?thesis using sy(2) by linarith
  qed
  from save_surface_color[OF ok x0 x1 y0 y1, of ?bo] obtain surf where
    surf: "save_surface ?bo st = Some surf" "surf_w surf = ?W * ?S" "surf_h surf = ?H * ?S"
      "(Rmask surf, Gmask surf, Bmask surf, Amask surf) = surface_masks ?bo"
      "surface_color surf ?sx ?sy
         = Some (SDL_GetRGBA (pack_pixel (cell_color st (?sx div ?S) (?sy div ?S))) surf)"
    by blast
  have dv: "?sx div ?S = cx" "?sy div ?S = cy"
    using div_of_cell[OF S sx] div_of_cell[OF S sy] by simp_all
  let ?fmt = "convert_to_RGB24 ?bo surf"
  let ?env = "saved_env env name surf"
  have l: "SDL_LoadBMP ?env name = Some surf"
    and c: "SDL_ConvertSurfaceFormat ?env surf = Some ?fmt"
    by (simp_all add: saved_env_def)
  have wh: "0 < surf_w surf" "0 < surf_h surf" using surf(2,3) x0 x1 y0 y1 by linarith+
  have "surf_h surf * rgb24_pitch (surf_w surf) \<le> surf_h surf * (4 * surf_w surf)"
    using wh rgb24_pitch_le[of "surf_w surf"] by (intro mult_left_mono) simp_all
  also have "\<dots> = 4 * (?W * ?S) * (?H * ?S)" by (simp add: surf(2,3))
  also have "\<dots> \<le> INT32_MAX" using ok by (simp add: export_ok_def)
  finally have rok: "rgb24_ok ?fmt (rgb24_bytes surf)" using convert_to_RGB24_ok[OF wh] by simp
  from load_bmp_to_canvas_get_cell[OF g l c rok] obtain st' where
    st': "load_bmp_to_canvas ?env name st = Some (0, st')"
      "\<forall>cx cy. in_grid st cx cy \<longrightarrow> get_cell st' cx cy
        = Some (nearest_palette_index (palette st) (sampled_color st ?fmt (rgb24_bytes surf) cx cy))"
    by blast
  have fw: "surf_w ?fmt = ?W * ?S" "surf_h ?fmt = ?H * ?S"
    using surf(2,3) by (simp_all add: convert_to_RGB24_def)
  have "sampled_color st ?fmt (rgb24_bytes surf) cx cy = rgb24_pixel ?fmt (rgb24_bytes surf) ?sx ?sy"
    unfolding sampled_color_def fw using x0 x1 y0 y1 by (simp add: clamp_coord_id)
  also have "\<dots> = (SDL_GetRGBA (pack_pixel (cell_color st cx cy)) surf)\<lparr>c_a := 255\<rparr>"
    using convert_to_RGB24_pixel[of ?sx surf ?sy _ ?bo] x0 x1 y0 y1 surf(2,3,5) dv by simp
  finally have "get_cell st' cx cy = Some (nearest_palette_index (palette st)
                  ((SDL_GetRGBA (pack_pixel (cell_color st cx cy)) surf)\<lparr>c_a := 255\<rparr>))"
    using st'(2) cell by simp
  moreover have "export_import env name st = Some (0, st')"
    using surf(1) st'(1) by (simp add: export_import_def)
  ultimately show ?thesis using surf(1,4) by blast
qed

lemma get_cell_stored:
  assumes ok: "export_ok st" and cell: "in_grid st cx cy"
  shows "\<exists>k. get_cell st cx cy = Some k \<and> 0 \<le> k \<and> k < PALETTE_COUNT
           \<and> cell_color st cx cy = palette st ! nat k"
proof -
  from ok obtain cv where cv: "canvas st = Some cv" "int (length cv) = CELLS_X st * CELLS_Y st"
    by (auto simp: export_ok_def elim: grid_okD)
  have b: "0 \<le> cx" "cx < CELLS_X st" "0 \<le> cy" "cy < CELLS_Y st"
    using cell by (simp_all add: in_grid_def)
  let ?i = "cy * CELLS_X st + cx"
  have i: "0 \<le> ?i" "?i < int (length cv)" using cell_index_bounds[OF b] cv(2) by simp_all
  have fits: "CELLS_X st * CELLS_Y st \<le> INT32_MAX"
    using ok by (auto simp: export_ok_def elim: grid_okD)
  have g: "get_cell st cx cy = Some (uint (cv ! nat ?i))"
    using i cv(1) cell_index_int[OF b fits] by (simp add: get_cell_def load_at_def)
  have "canvas_indices_valid st" using ok by (simp add: export_ok_def)
  from get_cell_valid[OF this g] have "0 \<le> uint (cv ! nat ?i) \<and> uint (cv ! nat ?i) < PALETTE_COUNT" .
  moreover have "cell_color st cx cy = palette st ! nat (uint (cv ! nat ?i))"
    by (simp add: cell_color_def canvas_cells_Some[OF cv(1)])
  ultimately show ?thesis using g by blast
qed

lemma export_import_cells:
  assumes ok: "export_ok st"
  shows "\<exists>surf st'. save_surface (SDL_BYTEORDER env) st = Some surf
    \<and> (Rmask surf, Gmask surf, Bmask surf, Amask surf) = surface_masks (SDL_BYTEORDER env)
    \<and> export_import env name st = Some (0, st')
    \<and> (\<forall>cx cy. in_grid st cx cy \<longrightarrow>
          get_cell st' cx cy
            = Some (nearest_palette_index (palette st)
                      ((SDL_GetRGBA (pack_pixel (cell_color st cx cy)) surf)\<lparr>c_a := 255\<rparr>)))"
proof -
  have S: "0 < CELL_SIZE st" and g: "grid_ok st" using ok by (simp_all add: export_ok_def)
  note W = grid_ok_sizes(1)[OF g] and H = grid_ok_sizes(2)[OF g]
  have cellwise: "\<exists>surf st'. save_surface (SDL_BYTEORDER env) st = Some surf
    \<and> (Rmask surf, Gmask surf, Bmask surf, Amask surf) = surface_masks (SDL_BYTEORDER env)
    \<and> export_import env name st = Some (0, st')
    \<and> get_cell st' cx cy
        = Some (nearest_palette_index (palette st)
                  ((SDL_GetRGBA (pack_pixel (cell_color st cx cy)) surf)\<lparr>c_a := 255\<rparr>))"
    if cell: "in_grid st cx cy" for cx cy
  proof -
    have b: "0 \<le> cx" "cx < CELLS_X st" "0 \<le> cy" "cy < CELLS_Y st"
      using cell by (simp_all add: in_grid_def)
    show ?thesis
      using export_import_cell[OF ok cell sample_in_cell[OF b(1,2) S W]
          sample_in_cell[OF b(3,4) S H]] .
  qed
  have "in_grid st 0 0" using ok by (auto simp: export_ok_def in_grid_def elim: grid_okD)
  from cellwise[OF this] obtain surf st' where
    r: "save_surface (SDL_BYTEORDER env) st = Some surf"
       "(Rmask surf, Gmask surf, Bmask surf, Amask surf) = surface_masks (SDL_BYTEORDER env)"
       "export_import env name st = Some (0, st')"
    by blast
  have "get_cell st' cx cy = Some (nearest_palette_index (palette st)
                      ((SDL_GetRGBA (pack_pixel (cell_color st cx cy)) surf)\<lparr>c_a := 255\<rparr>))"
    if "in_grid st cx cy" for cx cy
    using cellwise[OF that] r(1,3) by auto
  with r show ?thesis by blast
qed

text \<open>
  On a big-endian build the masks match the packing, and saving then loading at the same
  grid size gives back every cell's index, for every palette whose colours are pairwise
  distinct in red, green and blue and every cell size of at least one pixel for which the
  image's \<open>4 * w * h\<close> bytes fit an \<open>int\<close>.
\<close>

lemma export_import_big_endian:
  assumes ok: "export_ok st"
    and be: "SDL_BYTEORDER env = SDL_BIG_ENDIAN"
    and distinct: "\<forall>i j. 0 \<le> i \<and> i < j \<and> j < PALETTE_COUNT
                     \<longrightarrow> \<not> same_rgb (palette st ! nat i) (palette st ! nat j)"
  shows "\<exists>st'. export_import env name st = Some (0, st')
    \<and> (\<forall>cx cy. in_grid st cx cy \<longrightarrow> get_cell st' cx cy = get_cell st cx cy)"
proof -
  from export_import_cells[OF ok, of env name] obtain surf st' where
    r: "(Rmask surf, Gmask surf, Bmask surf, Amask surf) = surface_masks SDL_BIG_ENDIAN"
       "export_import env name st = Some (0, st')"
       "\<forall>cx cy. in_grid st cx cy \<longrightarrow>
          get_cell st' cx cy
            = Some (nearest_palette_index (palette st)
                      ((SDL_GetRGBA (pack_pixel (cell_color st cx cy)) surf)\<lparr>c_a := 255\<rparr>))"
    unfolding be by blast
  have "get_cell st' cx cy = get_cell st cx cy" if cell: "in_grid st cx cy" for cx cy
  proof -
    from get_cell_stored[OF ok cell] obtain k where
      k: "get_cell st cx cy = Some k" "0 \<le> k" "k < PALETTE_COUNT"
         "cell_color st cx cy = palette st ! nat k"
      by blast
    let ?c = "(palette st ! nat k)\<lparr>c_a := 255\<rparr>"
    have same: "same_rgb ?c (palette st ! nat k)" by (simp add: same_rgb_def)
    have first: "\<forall>j. 0 \<le> j \<and> j < k \<longrightarrow> \<not> same_rgb (palette st ! nat j) (palette st ! nat k)"
      using distinct k(3) by blast
    have "nearest_palette_index (palette st) ?c = k"
      using nearest_palette_index_exact(3)[OF k(2,3) same first] .
    then show ?thesis
      using r(3) cell k(1,4) by (simp add: SDL_GetRGBA_pack_big[OF r(1)])
  qed
  with r(2) show ?thesis by blast
qed

text \<open>
  On a little-endian build every cell comes back as the palette index nearest to its
  colour with alpha in place of red and green and blue exchanged.
\<close>

lemma export_import_little_endian:
  assumes ok: "export_ok st"
    and le: "SDL_BYTEORDER env = SDL_LIL_ENDIAN"
  shows "\<exists>st'. export_import env name st = Some (0, st')
    \<and> (\<forall>cx cy. in_grid st cx cy \<longrightarrow>
          get_cell st' cx cy
            = Some (nearest_palette_index (palette st)
                      \<lparr>c_r = c_a (cell_color st cx cy), c_g = c_b (cell_color st cx cy),
                       c_b = c_g (cell_color st cx cy), c_a = 255\<rparr>))"
proof -
  from export_import_cells[OF ok, of env name] obtain surf st' where
    r: "(Rmask surf, Gmask surf, Bmask surf, Amask surf) = surface_masks SDL_LIL_ENDIAN"
       "export_import env name st = Some (0, st')"
       "\<forall>cx cy. in_grid st cx cy \<longrightarrow>
          get_cell st' cx cy
            = Some (nearest_palette_index (palette st)
                      ((SDL_GetRGBA (pack_pixel (cell_color st cx cy)) surf)\<lparr>c_a := 255\<rparr>))"
    unfolding le by blast
  show ?thesis using r(2,3) by (auto simp: SDL_GetRGBA_pack_little[OF r(1)])
qed

text \<open>
  Claim C1, on a little-endian build. Saving the example (default palette, all colours
  distinct) and loading the file again at the same grid size turns the black cell
  \<open>(1, 1)\<close>, index 1, into index 2 (red): the pixel was written as \<open>255, 0, 0, 0\<close>.
\<close>

theorem export_import_little_endian_recolours:
  "SDL_BYTEORDER example_env = SDL_LIL_ENDIAN
   \<and> distinct (map (\<lambda>c. (c_r c, c_g c, c_b c)) (palette example_painted))
   \<and> get_cell example_painted 1 1 = Some 1
   \<and> (\<exists>st'. export_import example_env ''art.bmp'' example_painted = Some (0, st')
         \<and> get_cell st' 1 1 = Some 2)"
proof -
  have le: "SDL_BYTEORDER example_env = SDL_LIL_ENDIAN" by (simp add: example_env_def)
  have b: "get_cell example_painted 1 1 = Some 1"
    by code_simp
  have i: "in_grid example_painted 1 1" by (simp add: in_grid_def example_painted_def)
  have d: "CELLS_X example_painted = 2" "CELLS_Y example_painted = 2"
    "CELL_SIZE example_painted = 16" "palette example_painted = init_default_palette"
    by (simp_all add: example_painted_def)
  have s: "sample_coord 1 2 32 = 24" by code_simp
  have c: "cell_color example_painted 1 1 = \<lparr>c_r = 0, c_g = 0, c_b = 0, c_a = 255\<rparr>"
    by (simp add: cell_color_def canvas_cells_def example_painted_def init_default_palette_def)
  have n: "nearest_palette_index init_default_palette \<lparr>c_r = 255, c_g = 0, c_b = 0, c_a = 255\<rparr> = 2"
    by code_simp
  from export_import_cell[OF example_painted_export_ok i, of example_env "''art.bmp''"]
  obtain surf st' where r:
    "(Rmask surf, Gmask surf, Bmask surf, Amask surf) = surface_masks SDL_LIL_ENDIAN"
    "export_import example_env ''art.bmp'' example_painted = Some (0, st')"
    "get_cell st' 1 1 = Some (nearest_palette_index init_default_palette
        ((SDL_GetRGBA (pack_pixel \<lparr>c_r = 0, c_g = 0, c_b = 0, c_a = 255\<rparr>) surf)\<lparr>c_a := 255\<rparr>))"
    unfolding d le c using s by auto
  have "get_cell st' 1 1 = Some 2"
    using r(3) n by (simp add: SDL_GetRGBA_pack_little[OF r(1)])
  moreover have "distinct (map (\<lambda>c. (c_r c, c_g c, c_b c)) (palette example_painted))"
    by (simp add: d init_default_palette_def)
  ultimately show ?thesis using le b r(2) by blast
qed

section \<open>The handlers always have a result\<close>

text \<open>
  From a state that satisfies the invariant, every event other than a load has a defined
  result as long as the image of the canvas fits (its \<open>4 * w * h\<close> bytes fit an \<open>int\<close>) and
  the pointer coordinates are not within 10 of the least \<open>int\<close>: no handler reads or writes
  out of range, divides by zero or overflows. (A load has one whenever SDL yields no surface
  or a well-formed one.)
\<close>

lemma editor_inv_export_ok:
  assumes "editor_inv st"
    and "4 * (CELLS_X st * CELL_SIZE st) * (CELLS_Y st * CELL_SIZE st) \<le> INT32_MAX"
  shows "export_ok st"
  using assms
  by (simp add: editor_inv_def export_ok_def init_default_palette_def PALETTE_COUNT_def)

lemma paint_cell_defined:
  assumes "grid_ok st"
  shows "\<exists>st'. paint_cell st cx cy = Some st'"
proof (cases "cx \<ge> 0 \<and> cx < CELLS_X st \<and> cy \<ge> 0 \<and> cy < CELLS_Y st")
  case True
  from assms obtain cv where cv: "canvas st = Some cv"
    by (auto elim: grid_okD)
  have c: "in_grid st cx cy" using True by (simp add: in_grid_def)
  from grid_cell_int[OF assms c] True cv show ?thesis
    by (simp add: paint_cell_def store_at_def canvas_cells_Some)
next
  case False
  then show ?thesis unfolding paint_cell_def by (simp only: if_False) simp
qed

lemma paint_at_pointer_defined:
  assumes "grid_ok st" "0 < CELL_SIZE st"
    and "INT32_MIN \<le> mx" "mx \<le> INT32_MAX" "INT32_MIN \<le> my" "my \<le> INT32_MAX"
  shows "\<exists>st'. paint_at_pointer st mx my = Some st'"
proof -
  from c_div_defined[OF assms(3,4,2)] obtain cx where cx: "c_div mx (CELL_SIZE st) = Some cx" ..
  from c_div_defined[OF assms(5,6,2)] obtain cy where cy: "c_div my (CELL_SIZE st) = Some cy" ..
  from paint_cell_defined[OF assms(1), of cx cy] show ?thesis
    by (simp add: paint_at_pointer_def cx cy)
qed

lemma c_div_32:
  assumes "INT32_MIN \<le> x" "x \<le> INT32_MAX"
  shows "\<exists>q. c_div x 32 = Some q \<and> - 67108864 \<le> q \<and> q \<le> 67108864"
proof -
  have a: "\<bar>x\<bar> \<le> 2147483648" using assms by (simp add: INT32_MIN_def INT32_MAX_def)
  have "\<bar>x\<bar> div 32 \<le> 2147483648 div 32" using a by (rule zdiv_mono1) simp
  then have le: "\<bar>x\<bar> div 32 \<le> 67108864" by simp
  have q: "0 \<le> \<bar>x\<bar> div 32" by (simp add: pos_imp_zdiv_nonneg_iff)
  define q where "q = sgn x * (\<bar>x\<bar> div 32)"
  have b: "- 67108864 \<le> q" "q \<le> 67108864"
    using le q unfolding q_def by (cases "x < 0"; cases "x = 0"; simp)+
  then have "c_int q = Some q" by (simp add: c_int_def INT32_MIN_def INT32_MAX_def)
  moreover have "c_div x 32 = c_int q" by (simp add: c_div_def q_def)
  ultimately show ?thesis using b by simp
qed

lemma palette_click_defined:
  assumes w: "0 \<le> CELLS_X st * CELL_SIZE st" "CELLS_X st * CELL_SIZE st + 10 \<le> INT32_MAX"
    and mx: "CELLS_X st * CELL_SIZE st \<le> mx" "mx \<le> INT32_MAX"
    and my: "INT32_MIN + 10 \<le> my" "my \<le> INT32_MAX"
  shows "\<exists>st'. palette_click st mx my = Some st'"
proof -
  let ?w = "CELLS_X st * CELL_SIZE st"
  have 1: "c_int ?w = Some ?w" "c_int (?w + 10) = Some (?w + 10)"
    using w by (simp_all add: c_int_nonneg)
  have r: "INT32_MIN \<le> mx - (?w + 10)" "mx - (?w + 10) \<le> INT32_MAX"
    using w mx by (simp_all add: INT32_MIN_def)
  then have 2: "c_int (mx - (?w + 10)) = Some (mx - (?w + 10))" by (rule c_int_Some)
  have t: "INT32_MIN \<le> my - 10" "my - 10 \<le> INT32_MAX" using my by simp_all
  then have 3: "c_int (my - 10) = Some (my - 10)" by (rule c_int_Some)
  from c_div_32[OF r] obtain col where
    col: "c_div (mx - (?w + 10)) 32 = Some col" "- 67108864 \<le> col" "col \<le> 67108864" by blast
  from c_div_32[OF t] obtain row where
    row: "c_div (my - 10) 32 = Some row" "- 67108864 \<le> row" "row \<le> 67108864" by blast
  have 4: "c_int (row * 2) = Some (row * 2)" "c_int (row * 2 + col) = Some (row * 2 + col)"
    using row(2,3) col(2,3) by (simp_all add: c_int_def INT32_MIN_def INT32_MAX_def)
  show ?thesis
    by (simp add: palette_click_def Let_def 1 2 3 4 col(1) row(1))
qed

lemma save_canvas_as_bmp_defined:
  assumes "export_ok st"
  shows "\<exists>rc. save_canvas_as_bmp env fname st = Some (rc, st)"
proof -
  obtain surf where "save_surface (SDL_BYTEORDER env) st = Some surf"
    using save_surface_defined[OF assms] by blast
  then show ?thesis by (simp add: save_canvas_as_bmp_export_ok[OF assms])
qed

lemma clear_canvas_defined:
  assumes "grid_ok st"
  shows "\<exists>st'. clear_canvas env st = Some st'"
proof -
  from assms obtain cv where cv: "canvas st = Some cv" "int (length cv) = CELLS_X st * CELLS_Y st"
    and fits: "CELLS_X st * CELLS_Y st \<le> INT32_MAX"
    by (auto elim: grid_okD)
  have "0 \<le> CELLS_X st * CELLS_Y st" using cv(2) by (metis of_nat_0_le_iff)
  then show ?thesis
    using cv fits
    by (simp add: clear_canvas_def ensure_canvas_allocated_def memset_def c_int_nonneg)
qed

lemma key_down_defined:
  assumes inv: "editor_inv st" and k: "k \<noteq> SDLK_l"
    and size: "4 * (CELLS_X st * CELL_SIZE st) * (CELLS_Y st * CELL_SIZE st) \<le> INT32_MAX"
  shows "\<exists>st'. key_down env k st = Some st'"
proof -
  have g: "grid_ok st" using inv by (simp add: editor_inv_def)
  obtain st1 where c: "clear_canvas env st = Some st1"
    using clear_canvas_defined[OF g, of env] by blast
  have s: "\<exists>st'. map_option snd (save_canvas_as_bmp env fname st) = Some st'" for fname
    using save_canvas_as_bmp_defined[OF editor_inv_export_ok[OF inv size], of env fname] by auto
  show ?thesis
    using k c s unfolding key_down_def Let_def
    by (auto split: option.splits)
qed

lemma handle_event_defined:
  assumes inv: "editor_inv st" and e: "e \<noteq> SDL_KEYDOWN SDLK_l"
    and size: "4 * (CELLS_X st * CELL_SIZE st) * (CELLS_Y st * CELL_SIZE st) \<le> INT32_MAX"
    and ptr: "\<And>b mx my. e = SDL_MOUSEBUTTONDOWN b mx my \<or> e = SDL_MOUSEMOTION mx my \<Longrightarrow>
                INT32_MIN + 10 \<le> mx \<and> mx \<le> INT32_MAX \<and> INT32_MIN + 10 \<le> my \<and> my \<le> INT32_MAX"
  shows "\<exists>st'. handle_event env e st = Some st'"
proof -
  let ?w = "CELLS_X st * CELL_SIZE st"
  have g: "grid_ok st" and S: "4 \<le> CELL_SIZE st" using inv by (simp_all add: editor_inv_def)
  have W: "0 < CELLS_X st" using g by (auto elim: grid_okD)
  note z = export_ok_sizes[OF editor_inv_export_ok[OF inv size]]
  have "1 * 4 \<le> ?w" using W S by (intro mult_mono) simp_all
  then have w10: "?w + 10 \<le> INT32_MAX" using z(6) by linarith
  have cw: "c_int ?w = Some ?w" using z(1,4) by (simp add: c_int_nonneg)
  show ?thesis
  proof (cases e)
    case (SDL_MOUSEBUTTONDOWN button mx my)
    let ?st1 = "st\<lparr>mouse_down := 1, mouse_button := button\<rparr>"
    from ptr[of button mx my] SDL_MOUSEBUTTONDOWN
    have p: "INT32_MIN \<le> mx" "mx \<le> INT32_MAX" "INT32_MIN \<le> my" "my \<le> INT32_MAX"
      "INT32_MIN + 10 \<le> my" by simp_all
    have g1: "grid_ok ?st1" "0 < CELL_SIZE ?st1"
      using g S by (simp_all add: grid_ok_def canvas_cells_def)
    show ?thesis
    proof (cases "mx < ?w")
      case True
      from paint_at_pointer_defined[OF g1 p(1-4)] show ?thesis
        using SDL_MOUSEBUTTONDOWN True cw by (simp add: Let_def)
    next
      case False
      have "\<exists>st'. palette_click ?st1 mx my = Some st'"
        using z(1) w10 False p by (intro palette_click_defined) simp_all
      then show ?thesis using SDL_MOUSEBUTTONDOWN False cw by (simp add: Let_def)
    qed
  next
    case (SDL_MOUSEMOTION mx my)
    from ptr[of undefined mx my] SDL_MOUSEMOTION
    have p: "INT32_MIN \<le> mx" "mx \<le> INT32_MAX" "INT32_MIN \<le> my" "my \<le> INT32_MAX"
      by simp_all
    have S0: "0 < CELL_SIZE st" using S by simp
    from paint_at_pointer_defined[OF g S0 p] show ?thesis
      using SDL_MOUSEMOTION cw by auto
  next
    case (SDL_KEYDOWN k)
    then show ?thesis using key_down_defined[OF inv _ size, of k env] e by simp
  qed simp_all
qed

end
